theory Spec2Isabelle
  imports Complex_Main "HOL-Library.Word"
begin

unbundle bit_operations_syntax

section \<open>JavaScript values\<close>

text \<open>
  A JavaScript string is a sequence of UTF-16 code units. \<open>lit\<close> gives the code units of
  an ASCII literal of the source, \<open>charCodeAt\<close> reads one unit as a number.
  A \<open>bigint\<close> is an \<open>int\<close>: \<open>^\<close>, \<open>&\<close>, \<open>>>\<close> and \<open><<\<close> on bigints are
  \<open>XOR\<close>, \<open>AND\<close>, \<open>drop_bit\<close> and \<open>push_bit\<close> on the unbounded two's complement.
\<close>

type_synonym jsstring = "16 word list"

definition lit :: "string \<Rightarrow> jsstring" where
  "lit s = map (\<lambda>c. of_nat (of_char c)) s"

definition charCode :: "16 word \<Rightarrow> int" where
  "charCode ch = uint ch"

datatype error = NonDigit | SyntaxError | RangeError

text \<open>
  The 32-bit conversions of the bitwise operators on numbers: \<open>>>> 0\<close> is ToUint32,
  \<open>&\<close> and \<open>^\<close> convert both operands with ToInt32 and give an int32.
\<close>

definition toUint32 :: "int \<Rightarrow> int" where
  "toUint32 v = take_bit 32 v"

definition toInt32 :: "int \<Rightarrow> int" where
  "toInt32 v = signed_take_bit 31 v"

definition num_and :: "int \<Rightarrow> int \<Rightarrow> int" where
  "num_and a b = toInt32 a AND toInt32 b"

definition num_xor :: "int \<Rightarrow> int \<Rightarrow> int" where
  "num_xor a b = toInt32 a XOR toInt32 b"

text \<open>
  A finite number is the real it denotes; the three other values of the type are kept
  where the source converts a number to a bigint, which throws on them.
\<close>

datatype number = Finite real | NaN | PosInfinity | NegInfinity

datatype bigish = BigInt int | Number number

section \<open>MossPrimeSeed: constants and utilities\<close>

definition RED :: jsstring where
  "RED = lit ''113031491493585389543778774590997079619617525721567332336510''"

definition BLACK :: jsstring where
  "BLACK = lit ''011235831459437077415617853819099875279651673033695493257291''"

definition BLUE :: jsstring where
  "BLUE = lit ''012776329785893036118967145479098334781325217074992143965631''"

fun toDigits :: "jsstring \<Rightarrow> error + int list" where
  "toDigits [] = Inr []"
| "toDigits (ch # s) =
     (let d = charCode ch - 48 in
      if d < 0 \<or> d > 9 then Inl NonDigit
      else case toDigits s of Inl e \<Rightarrow> Inl e | Inr ds \<Rightarrow> Inr (d # ds))"

definition mix64 :: "int \<Rightarrow> int" where
  "mix64 x0 =
     (let x = x0 XOR 0x9e3779b97f4a7c15;
          x = x XOR drop_bit 30 x;
          x = x * 0xbf58476d1ce4e5b9;
          x = x XOR drop_bit 27 x;
          x = x * 0x94d049bb133111eb;
          x = x XOR drop_bit 31 x
      in x AND (push_bit 64 1 - 1))"

fun interleave3 :: "jsstring \<Rightarrow> jsstring \<Rightarrow> jsstring \<Rightarrow> jsstring" where
  "interleave3 (a # as) (b # bs) (c # cs) = a # b # c # interleave3 as bs cs"
| "interleave3 _ _ _ = []"

definition hexTable :: string where
  "hexTable = ''0123456789abcdef''"

text \<open>
  The loop of \<open>base10ToHex\<close>, from index \<open>i\<close> with accumulator \<open>acc\<close>. The accumulator
  is an int32 after every round, so \<open>acc * 17 + d\<close> is computed exactly by the doubles
  of the source.
\<close>

fun base10ToHex_loop :: "jsstring \<Rightarrow> nat \<Rightarrow> int \<Rightarrow> string" where
  "base10ToHex_loop [] i acc = []"
| "base10ToHex_loop (ch # s) i acc =
     (let acc' = num_and (toUint32 (acc * 17 + (charCode ch - 48))) 0xffffffff
      in hexTable ! nat (num_and (num_xor acc' (int i * 7)) 15)
           # base10ToHex_loop s (Suc i) acc')"

definition base10ToHex :: "jsstring \<Rightarrow> string" where
  "base10ToHex digitStr = base10ToHex_loop digitStr 0 0"

text \<open>\<open>BigInt('0x' + h)\<close>: the value of the hexadecimal digits, a SyntaxError otherwise.\<close>

definition hexDigit :: "char \<Rightarrow> int option" where
  "hexDigit c =
     (let n = (of_char c :: nat) in
      if 48 \<le> n \<and> n \<le> 57 then Some (int n - 48)
      else if 97 \<le> n \<and> n \<le> 102 then Some (int n - 87)
      else if 65 \<le> n \<and> n \<le> 70 then Some (int n - 55)
      else None)"

fun hexValue :: "int \<Rightarrow> string \<Rightarrow> int option" where
  "hexValue v [] = Some v"
| "hexValue v (c # cs) =
     (case hexDigit c of None \<Rightarrow> None | Some d \<Rightarrow> hexValue (v * 16 + d) cs)"

definition bigIntOfHex :: "string \<Rightarrow> error + int" where
  "bigIntOfHex h =
     (if h = [] then Inl SyntaxError
      else case hexValue 0 h of None \<Rightarrow> Inl SyntaxError | Some v \<Rightarrow> Inr v)"

subsection \<open>Fast doubling\<close>

text \<open>
  The inner \<open>fn\<close> of \<open>fibFast\<close> is only ever called on the clamped index, which is not
  negative; its argument is therefore a natural number.
\<close>

fun fn :: "nat \<Rightarrow> int \<times> int" where
  "fn k =
     (if k = 0 then (0, 1)
      else
        let (a, b) = fn (k div 2);
            c = a * (push_bit 1 b - a);
            d = a * a + b * b
        in if k mod 2 = 0 then (c, d) else (d, c + d))"

declare fn.simps [simp del]

text \<open>\<open>BigInt(v)\<close> on a number: a RangeError unless the number is an integer.\<close>

definition bigIntOfNumber :: "number \<Rightarrow> error + int" where
  "bigIntOfNumber v =
     (case v of
        Finite x \<Rightarrow> if of_int \<lfloor>x\<rfloor> = x then Inr \<lfloor>x\<rfloor> else Inl RangeError
      | _ \<Rightarrow> Inl RangeError)"

definition math_floor :: "number \<Rightarrow> number" where
  "math_floor v = (case v of Finite x \<Rightarrow> Finite (of_int \<lfloor>x\<rfloor>) | _ \<Rightarrow> v)"

text \<open>\<open>Math.max(0, v)\<close>.\<close>

definition math_max0 :: "number \<Rightarrow> number" where
  "math_max0 v =
     (case v of
        Finite x \<Rightarrow> Finite (max 0 x)
      | NaN \<Rightarrow> NaN
      | PosInfinity \<Rightarrow> PosInfinity
      | NegInfinity \<Rightarrow> Finite 0)"

definition fibFast :: "bigish \<Rightarrow> error + int \<times> int" where
  "fibFast n =
     (case (case n of
              BigInt k \<Rightarrow> Inr (if k < 0 then 0 else k)
            | Number v \<Rightarrow> bigIntOfNumber (math_max0 (math_floor v)))
      of Inl e \<Rightarrow> Inl e
       | Inr index \<Rightarrow> Inr (fn (nat index)))"

section \<open>Field initialisation\<close>

text \<open>
  The object returned by \<open>initField\<close>, with the variables its closures capture:
  \<open>seedBI\<close>, read by \<open>hash\<close>, and the two words \<open>s0\<close>, \<open>s1\<close> that \<open>prng\<close>
  reads and assigns. \<open>hash\<close>, \<open>prng\<close>, \<open>fib\<close> and \<open>lucas\<close> are functions of this record.
\<close>

record Field =
  seed :: jsstring
  red :: jsstring
  black :: jsstring
  blue :: jsstring
  ring :: "int list"
  pulse :: "int list"
  seedBI :: int
  s0 :: int
  s1 :: int

text \<open>\<open>a % b\<close> on integral numbers: the remainder takes the sign of the dividend.\<close>

definition num_rem :: "int \<Rightarrow> int \<Rightarrow> int" where
  "num_rem a b = sgn a * (\<bar>a\<bar> mod \<bar>b\<bar>)"

text \<open>
  The three digit arrays have 60 entries each (the constants have 60 characters), so
  every index below is in range.
\<close>

definition pulseOf :: "int list \<Rightarrow> int list \<Rightarrow> int list \<Rightarrow> int list" where
  "pulseOf r k b =
     map (\<lambda>i. num_rem (num_xor (num_xor (r ! i) (k ! ((i * 7) mod 60))) (b ! ((i * 13) mod 60))) 10)
       [0..<length r]"

definition ringOf :: "int list \<Rightarrow> int list \<Rightarrow> int list \<Rightarrow> int list" where
  "ringOf r k b = map (\<lambda>i. num_rem (r ! i + k ! i + b ! i) 10) [0..<60]"

definition initField :: "jsstring \<Rightarrow> error + Field" where
  "initField seedName =
     (case toDigits RED of Inl e \<Rightarrow> Inl e | Inr r \<Rightarrow>
      case toDigits BLACK of Inl e \<Rightarrow> Inl e | Inr k \<Rightarrow>
      case toDigits BLUE of Inl e \<Rightarrow> Inl e | Inr b \<Rightarrow>
      let seedStr = interleave3 RED BLACK BLUE in
      case bigIntOfHex (base10ToHex (seedStr @ seedName)) of Inl e \<Rightarrow> Inl e | Inr sBI \<Rightarrow>
        Inr \<lparr> seed = seedName, red = RED, black = BLACK, blue = BLUE,
              ring = ringOf r k b, pulse = pulseOf r k b,
              seedBI = sBI,
              s0 = mix64 sBI,
              s1 = mix64 (sBI XOR 0xa5a5a5a5a5a5a5a5) \<rparr>)"

subsection \<open>prng\<close>

function bitLength :: "int \<Rightarrow> nat" where
  "bitLength m = (if m \<le> 0 then 0 else Suc (bitLength (m div 2)))"
  by pat_completeness auto
termination
  by (relation "measure nat") auto

declare bitLength.simps [simp del]

text \<open>
  \<open>Number(b)\<close> on a bigint: the nearest double, ties to the even significand of 53 bits.
  (Magnitudes from \<open>2 ^ 1024\<close> on, which give Infinity, do not occur: the one call site
  passes a value below \<open>2 ^ 64\<close>.)
\<close>

definition numberOfBigInt :: "int \<Rightarrow> real" where
  "numberOfBigInt b =
     (let m = \<bar>b\<bar>;
          sh = bitLength m - 53;
          q = m div 2 ^ sh;
          r = m mod 2 ^ sh;
          q' = (if 2 * r > 2 ^ sh \<or> (2 * r = 2 ^ sh \<and> odd q) then q + 1 else q)
      in of_int (sgn b * q' * 2 ^ sh))"

text \<open>
  One call of \<open>prng\<close>: the result and the field with the assigned state. The final
  division is by a power of two and is exact on doubles.
\<close>

definition prng :: "Field \<Rightarrow> real \<times> Field" where
  "prng f =
     (let x = s0 f;
          y = s1 f;
          x = x XOR push_bit 23 x;
          x = x XOR drop_bit 17 x;
          x = x XOR (y XOR drop_bit 26 y);
          f' = f\<lparr> s0 := y, s1 := x \<rparr>;
          sum = (s0 f' + s1 f') AND (push_bit 64 1 - 1)
      in (numberOfBigInt sum / 18446744073709551616, f'))"

subsection \<open>hash, fib, lucas\<close>

fun hash_loop :: "int \<Rightarrow> jsstring \<Rightarrow> nat \<Rightarrow> int" where
  "hash_loop h [] i = h"
| "hash_loop h (ch # msg) i =
     hash_loop (mix64 (h XOR (charCode ch + int i * 1315423911))) msg (Suc i)"

text \<open>
  One call of \<open>hash\<close>: the result and the field after the call. The closure reads
  \<open>seedBI\<close> and assigns to none of the captured variables; its arithmetic is on
  bigints throughout (the loop counter apart).
\<close>

definition hash :: "Field \<Rightarrow> jsstring \<Rightarrow> int \<times> Field" where
  "hash f msg = (hash_loop (seedBI f) msg 0, f)"

text \<open>Calls on a Field, and the Field after a sequence of them.\<close>

datatype fieldCall = CallPrng | CallHash jsstring

fun afterCall :: "Field \<Rightarrow> fieldCall \<Rightarrow> Field" where
  "afterCall f CallPrng = snd (prng f)"
| "afterCall f (CallHash msg) = snd (hash f msg)"

definition afterCalls :: "fieldCall list \<Rightarrow> Field \<Rightarrow> Field" where
  "afterCalls cs f = foldl afterCall f cs"

definition fib :: "number \<Rightarrow> error + int" where
  "fib n = (case fibFast (Number n) of Inl e \<Rightarrow> Inl e | Inr (Fn, Fnp1) \<Rightarrow> Inr Fn)"

definition lucas :: "number \<Rightarrow> error + int" where
  "lucas n =
     (if n = Finite 0 then Inr 2
      else case fibFast (Number (math_max0 n)) of
             Inl e \<Rightarrow> Inl e
           | Inr (Fn, Fnp1) \<Rightarrow> Inr (2 * Fnp1 - Fn))"

text \<open>The Fibonacci and Lucas numbers by their recurrences, for reference.\<close>

fun fibonacci :: "nat \<Rightarrow> int" where
  "fibonacci 0 = 0"
| "fibonacci (Suc 0) = 1"
| "fibonacci (Suc (Suc n)) = fibonacci n + fibonacci (Suc n)"

fun lucas_number :: "nat \<Rightarrow> int" where
  "lucas_number 0 = 2"
| "lucas_number (Suc 0) = 1"
| "lucas_number (Suc (Suc n)) = lucas_number n + lucas_number (Suc n)"

section \<open>Numbers\<close>

text \<open>
  A number of the source is an IEEE double. Every arithmetic operation below yields the
  exact real result passed through \<open>rnd\<close>, the rounding of the platform, which the
  functions take as a parameter; a decimal literal \<open>c\<close> denotes \<open>rnd c\<close>. What is used
  of the rounding is collected in \<open>rounding\<close>: it is monotone, and it keeps every
  half-integer of up to 53 bits, as these are doubles. Comparisons, \<open>Math.min\<close>,
  \<open>Math.max\<close>, \<open>Math.abs\<close>, \<open>Math.round\<close> and \<open>%\<close> are exact on doubles.
\<close>

definition rounding :: "(real \<Rightarrow> real) \<Rightarrow> bool" where
  "rounding rnd \<longleftrightarrow>
     (\<forall>x y. x \<le> y \<longrightarrow> rnd x \<le> rnd y) \<and>
     (\<forall>k::int. \<bar>k\<bar> \<le> 2 ^ 53 \<longrightarrow> rnd (of_int k / 2) = of_int k / 2)"

text \<open>\<open>a % b\<close>: the remainder of the division truncated towards zero.\<close>

definition num_fmod :: "real \<Rightarrow> real \<Rightarrow> real" where
  "num_fmod a b = a - b * of_int (if a / b < 0 then \<lceil>a / b\<rceil> else \<lfloor>a / b\<rfloor>)"

definition math_round :: "real \<Rightarrow> real" where
  "math_round x = of_int \<lfloor>x + 1 / 2\<rfloor>"

section \<open>Genome derivation\<close>

record GuardianStats =
  energy :: real
  curiosity :: real
  bond :: real
  health :: real

record BreedingGenome =
  red60 :: real
  blue60 :: real
  black60 :: real

text \<open>\<open>xs.slice(0, n).reduce((a, b) => a + b, 0)\<close> on an array of small integers.\<close>

definition sliceSum :: "int list \<Rightarrow> nat \<Rightarrow> real" where
  "sliceSum xs n = of_int (foldl (+) 0 (take n xs))"

definition computeGenome :: "(real \<Rightarrow> real) \<Rightarrow> Field \<Rightarrow> GuardianStats \<Rightarrow> BreedingGenome" where
  "computeGenome rnd field v =
     (let pulseSum = sliceSum (pulse field) 20;
          ringSum = sliceSum (ring field) 20
      in \<lparr> red60 = min 100 (num_fmod
                (rnd (rnd (rnd (pulseSum * rnd 1.2) + rnd (energy v * rnd 0.7))
                      + rnd (rnd (100 - health v) * rnd 0.3))) 100),
            blue60 = min 100 (num_fmod
                (rnd (rnd (rnd (ringSum * rnd 1.1) + rnd (curiosity v * rnd 0.6))
                      + rnd (bond v * rnd 0.5))) 100),
            black60 = min 100 (num_fmod
                (rnd (rnd (rnd (rnd (pulseSum + ringSum) * rnd 0.8) + rnd (energy v * rnd 0.4))
                      + rnd (bond v * rnd 0.6))) 100) \<rparr>)"

text \<open>The partner genome that \<open>breedGuardian\<close> derives from \<open>initField(breedingPartner)\<close>.\<close>

definition partnerGenome :: "(real \<Rightarrow> real) \<Rightarrow> Field \<Rightarrow> BreedingGenome" where
  "partnerGenome rnd partnerField =
     \<lparr> red60 = min 100 (math_round (num_fmod (rnd (sliceSum (pulse partnerField) 20 * rnd 1.5)) 100)),
       blue60 = min 100 (math_round (num_fmod (rnd (sliceSum (ring partnerField) 20 * rnd 1.3)) 100)),
       black60 = min 100 (math_round (num_fmod
          (rnd (rnd (sliceSum (pulse partnerField) 10 + sliceSum (ring partnerField) 10) * rnd 1.1)) 100)) \<rparr>"

section \<open>Trinity evolution\<close>

datatype TrinityAspect = sun | shadow | void

datatype EvolutionTrait = radiant | umbral | cosmic | balanced | chaotic

record EvolutionState =
  primaryAspect :: TrinityAspect
  secondaryAspect :: "TrinityAspect option"
  trait :: EvolutionTrait
  power :: real
  mutations :: "string list"

definition calculateTrinityAspect :: "BreedingGenome \<Rightarrow> TrinityAspect" where
  "calculateTrinityAspect genome =
     (if red60 genome > blue60 genome \<and> red60 genome > black60 genome then sun
      else if blue60 genome > red60 genome \<and> blue60 genome > black60 genome then shadow
      else if black60 genome > red60 genome \<and> black60 genome > blue60 genome then void
      else if red60 genome \<ge> max (blue60 genome) (black60 genome) then sun
      else if blue60 genome \<ge> max (red60 genome) (black60 genome) then shadow
      else void)"

text \<open>
  \<open>others\<close> keeps two of the three entries, in the order sun, shadow, void, so the
  \<open>reduce\<close> without initial value starts from the first of them.
\<close>

definition calculateSecondaryAspect ::
  "(real \<Rightarrow> real) \<Rightarrow> BreedingGenome \<Rightarrow> TrinityAspect \<Rightarrow> TrinityAspect option" where
  "calculateSecondaryAspect rnd genome primary =
     (let values = [(sun, red60 genome), (shadow, blue60 genome), (void, black60 genome)];
          primaryValue = (case primary of sun \<Rightarrow> red60 genome
                          | shadow \<Rightarrow> blue60 genome | void \<Rightarrow> black60 genome);
          others = filter (\<lambda>(k, v). k \<noteq> primary) values
      in case others of
           [] \<Rightarrow> None
         | first # rest \<Rightarrow>
             let (secondaryKey, secondaryValue) =
                   foldl (\<lambda>mx curr. if snd curr > snd mx then curr else mx) first rest
             in if secondaryValue \<ge> rnd (primaryValue * rnd 0.8) then Some secondaryKey
                else None)"

definition calculateEvolutionTrait ::
  "(real \<Rightarrow> real) \<Rightarrow> BreedingGenome \<Rightarrow> TrinityAspect \<Rightarrow> TrinityAspect option \<Rightarrow> EvolutionTrait" where
  "calculateEvolutionTrait rnd genome primary secondary =
     (let avg = rnd (rnd (rnd (red60 genome + blue60 genome) + black60 genome) / 3);
          variance = max (max \<bar>rnd (red60 genome - avg)\<bar> \<bar>rnd (blue60 genome - avg)\<bar>)
                         \<bar>rnd (black60 genome - avg)\<bar>
      in if variance > 30 then chaotic
         else if variance < 15 then balanced
         else if secondary \<noteq> None then cosmic
         else if primary = sun then radiant
         else if primary = shadow then umbral
         else cosmic)"

definition calculateEvolutionPower :: "(real \<Rightarrow> real) \<Rightarrow> BreedingGenome \<Rightarrow> real" where
  "calculateEvolutionPower rnd genome =
     (let total = rnd (rnd (red60 genome + blue60 genome) + black60 genome);
          mx = max (max (red60 genome) (blue60 genome)) (black60 genome);
          strength = rnd (total / 3);
          focus = rnd (rnd (mx / 100) * 100)
      in math_round (rnd (rnd (strength * rnd 0.6) + rnd (focus * rnd 0.4))))"

definition generateMutations :: "BreedingGenome \<Rightarrow> string list" where
  "generateMutations genome =
     (if red60 genome > 90 then [''Solar Flare - Enhanced vitality regeneration''] else []) @
     (if red60 genome < 10 then [''Dim Ember - Requires less energy to sustain''] else []) @
     (if blue60 genome > 90 then [''Crystal Form - Rigid structure, high defense''] else []) @
     (if blue60 genome < 10 then [''Fluid Shape - Adaptive form, high flexibility''] else []) @
     (if black60 genome > 90 then [''Void Touch - Deep cosmic connection''] else []) @
     (if black60 genome < 10 then [''Clear Light - Reduced mystery, increased clarity''] else []) @
     (if red60 genome > 85 \<and> black60 genome > 85
      then [''Supernova - Explosive energy release''] else []) @
     (if blue60 genome > 85 \<and> black60 genome > 85
      then [''Dark Matter - Hidden mass and presence''] else []) @
     (if red60 genome > 85 \<and> blue60 genome > 85
      then [''Plasma Core - Structured energy form''] else [])"

definition calculateEvolution :: "(real \<Rightarrow> real) \<Rightarrow> BreedingGenome \<Rightarrow> EvolutionState" where
  "calculateEvolution rnd genome =
     (let primary = calculateTrinityAspect genome;
          secondary = calculateSecondaryAspect rnd genome primary
      in \<lparr> primaryAspect = primary,
            secondaryAspect = secondary,
            trait = calculateEvolutionTrait rnd genome primary secondary,
            power = calculateEvolutionPower rnd genome,
            mutations = generateMutations genome \<rparr>)"

subsection \<open>Breeding\<close>

text \<open>
  \<open>randomFn\<close> is a generator with a state of its own: a call takes the state and gives
  the draw and the next state. \<open>breedGenomes\<close> draws four times, in the order red,
  blue, black, boost.
\<close>

definition mutate :: "(real \<Rightarrow> real) \<Rightarrow> ('s \<Rightarrow> real \<times> 's) \<Rightarrow> real \<Rightarrow> 's \<Rightarrow> real \<times> 's" where
  "mutate rnd randomFn val s =
     (let (r, s') = randomFn s;
          variance = rnd (rnd (r - rnd 0.5) * 30)
      in (max 0 (min 100 (rnd (val + variance))), s'))"

definition breedGenomes ::
  "(real \<Rightarrow> real) \<Rightarrow> BreedingGenome \<Rightarrow> BreedingGenome \<Rightarrow> ('s \<Rightarrow> real \<times> 's) \<Rightarrow> 's
     \<Rightarrow> BreedingGenome \<times> 's" where
  "breedGenomes rnd parent1 parent2 randomFn s =
     (let inheritRed = rnd (rnd (red60 parent1 + red60 parent2) / 2);
          inheritBlue = rnd (rnd (blue60 parent1 + blue60 parent2) / 2);
          inheritBlack = rnd (rnd (black60 parent1 + black60 parent2) / 2);
          (red, s) = mutate rnd randomFn inheritRed s;
          (blue, s) = mutate rnd randomFn inheritBlue s;
          (black, s) = mutate rnd randomFn inheritBlack s;
          (boost, s) = randomFn s;
          (red, blue, black) =
            (if boost < rnd 0.05 then
               let maxParent1 = max (max (red60 parent1) (blue60 parent1)) (black60 parent1);
                   maxParent2 = max (max (red60 parent2) (blue60 parent2)) (black60 parent2)
               in if maxParent1 = red60 parent1 \<or> maxParent2 = red60 parent2
                  then (min 100 (rnd (red + 10)), blue, black)
                  else if maxParent1 = blue60 parent1 \<or> maxParent2 = blue60 parent2
                  then (red, min 100 (rnd (blue + 10)), black)
                  else (red, blue, min 100 (rnd (black + 10)))
             else (red, blue, black))
      in (\<lparr> red60 = math_round red, blue60 = math_round blue, black60 = math_round black \<rparr>, s))"

section \<open>Consciousness: emotional response\<close>

datatype ExpandedEmotionalState =
  serene | calm | curious | playful | contemplative | affectionate | restless | yearning
  | overwhelmed | withdrawn | ecstatic | melancholic | mischievous | protective | transcendent

text \<open>The \<open>GuardianStats\<close> of the consciousness engine (mood, energy, hunger, hygiene).\<close>

record ConsciousnessStats =
  mood :: real
  energy :: real
  hunger :: real
  hygiene :: real

record PersonalityTraits =
  energy :: real
  curiosity :: real
  affection :: real
  independence :: real
  discipline :: real
  playfulness :: real
  social :: real
  temperament :: string

definition calculateEmotionalResponse ::
  "ConsciousnessStats \<Rightarrow> PersonalityTraits \<Rightarrow> ExpandedEmotionalState" where
  "calculateEmotionalResponse vitals traits =
     (let mood = mood vitals;
          energy = ConsciousnessStats.energy vitals;
          hunger = hunger vitals;
          hygiene = hygiene vitals;
          energyTrait = PersonalityTraits.energy traits;
          affection = affection traits;
          curiosity = PersonalityTraits.curiosity traits
      in if hunger > 80 then yearning
         else if hygiene < 30 then overwhelmed
         else if energy < 20 then withdrawn
         else if mood > 85 \<and> energy > 70 then ecstatic
         else if mood > 75 \<and> energyTrait > 60 then playful
         else if mood > 75 \<and> curiosity > 60 then curious
         else if mood > 60 \<and> affection > 60 then affectionate
         else if mood > 50 \<and> mood < 70 then calm
         else if mood > 50 \<and> curiosity > 70 then contemplative
         else if mood < 40 then melancholic
         else if energy > 60 \<and> mood < 50 then restless
         else serene)"

section \<open>Behaviour state machine: useGuardianAI\<close>

datatype GuardianAIMode = idle | observing | focusing | playing | dreaming

record Timing =
  tmin :: real
  tmax :: real

record Timings =
  idle_timing :: Timing
  observing_timing :: Timing
  focusing_timing :: Timing
  playing_timing :: Timing
  dreaming_timing :: Timing

record Probabilities =
  idleToDream :: real
  idleToObserve :: real
  idleToFocus :: real

record AIBehaviorConfig =
  timings :: Timings
  probabilities :: Probabilities

record GuardianSigilPoint =
  sigil_id :: int
  sigil_x :: real
  sigil_y :: real
  sigil_angle :: real
  sigil_radius :: real

text \<open>
  The arguments of the hook that the machine reads: \<open>sigilPoints\<close> and \<open>options\<close>;
  \<open>onPlay\<close> tells whether the optional callback is supplied.
\<close>

record Props =
  sigilPoints :: "GuardianSigilPoint list"
  config :: AIBehaviorConfig
  stats :: GuardianStats
  onPlay :: bool

definition DEFAULT_AI_CONFIG :: AIBehaviorConfig where
  "DEFAULT_AI_CONFIG =
     \<lparr> timings =
         \<lparr> idle_timing = \<lparr> tmin = 3000, tmax = 8000 \<rparr>,
           observing_timing = \<lparr> tmin = 5000, tmax = 12000 \<rparr>,
           focusing_timing = \<lparr> tmin = 2000, tmax = 4000 \<rparr>,
           playing_timing = \<lparr> tmin = 3000, tmax = 6000 \<rparr>,
           dreaming_timing = \<lparr> tmin = 8000, tmax = 15000 \<rparr> \<rparr>,
       probabilities =
         \<lparr> idleToDream = 15 / 100, idleToObserve = 5 / 10, idleToFocus = 25 / 100 \<rparr> \<rparr>"

text \<open>
  The functions handed to \<open>setTimeout\<close>, one constructor for each arrow function of
  \<open>transitionToNextMode\<close>, with what the closure captures: the props of its render
  and, for the re-arming call, the \<open>mode\<close> of that render.
\<close>

datatype callback =
  DreamEnd
  | ObserveEnd
  | FocusEnd Props
  | PlayEnd
  | Retransition Props GuardianAIMode

text \<open>Calls of the callbacks the hook was given, in the order they are made.\<close>

datatype call = OnDreamComplete | OnFocusChange "int option" | OnPlay

text \<open>
  One instance of the hook: its React state (\<open>mode\<close>, \<open>focusedSigil\<close>), the ref
  \<open>timerRef.current\<close>, the timers pending in the browser (handle, delay, callback), the
  next timer handle, the number of \<open>Math.random()\<close> calls made so far, the calls made
  to the parent's callbacks and the props of the latest render.
\<close>

record HookState =
  mode :: GuardianAIMode
  focusedSigil :: "int option"
  timerRef :: "nat option"
  timers :: "(nat \<times> real \<times> callback) list"
  nextTimer :: nat
  drawn :: nat
  calls :: "call list"
  props :: Props

text \<open>\<open>Math.random()\<close>: the draws are the values of \<open>random\<close>, consumed in order.\<close>

definition math_random :: "(nat \<Rightarrow> real) \<Rightarrow> HookState \<Rightarrow> real \<times> HookState" where
  "math_random random hs = (random (drawn hs), hs\<lparr> drawn := Suc (drawn hs) \<rparr>)"

text \<open>\<open>timerRef.current = setTimeout(cb, delay)\<close>.\<close>

definition setTimeout :: "callback \<Rightarrow> real \<Rightarrow> HookState \<Rightarrow> HookState" where
  "setTimeout cb delay hs =
     hs\<lparr> timers := timers hs @ [(nextTimer hs, delay, cb)],
         timerRef := Some (nextTimer hs),
         nextTimer := Suc (nextTimer hs) \<rparr>"

definition clearTimeout :: "nat \<Rightarrow> HookState \<Rightarrow> HookState" where
  "clearTimeout h hs = hs\<lparr> timers := filter (\<lambda>(h', d, cb). h' \<noteq> h) (timers hs) \<rparr>"

text \<open>\<open>t.min + Math.random() * (t.max - t.min)\<close> for the draw \<open>r\<close>.\<close>

definition duration :: "(real \<Rightarrow> real) \<Rightarrow> Timing \<Rightarrow> real \<Rightarrow> real" where
  "duration rnd t r = rnd (tmin t + rnd (r * rnd (tmax t - tmin t)))"

text \<open>
  \<open>transitionToNextMode\<close> as created by the render with props \<open>p\<close> and mode \<open>m\<close>.
\<close>

definition transitionToNextMode ::
  "(real \<Rightarrow> real) \<Rightarrow> (nat \<Rightarrow> real) \<Rightarrow> Props \<Rightarrow> GuardianAIMode \<Rightarrow> HookState \<Rightarrow> HookState" where
  "transitionToNextMode rnd random p m hs =
     (if m = idle then
        let (rand, hs) = math_random random hs in
        if GuardianStats.energy (stats p) < 30 \<and> rand < idleToDream (probabilities (config p)) then
          let hs = hs\<lparr> mode := dreaming \<rparr>;
              (r, hs) = math_random random hs
          in setTimeout DreamEnd (duration rnd (dreaming_timing (timings (config p))) r) hs
        else if rand < idleToObserve (probabilities (config p)) then
          let hs = hs\<lparr> mode := observing \<rparr>;
              (r, hs) = math_random random hs
          in setTimeout ObserveEnd (duration rnd (observing_timing (timings (config p))) r) hs
        else if GuardianStats.curiosity (stats p) > 40 \<and>
                rand < rnd (idleToFocus (probabilities (config p))
                            + idleToObserve (probabilities (config p))) then
          let hs = hs\<lparr> mode := focusing \<rparr>;
              (r, hs) = math_random random hs
          in setTimeout (FocusEnd p) (duration rnd (focusing_timing (timings (config p))) r) hs
        else
          let (r, hs) = math_random random hs
          in setTimeout (Retransition p m) (duration rnd (idle_timing (timings (config p))) r) hs
      else
        let (r, hs) = math_random random hs
        in setTimeout (Retransition p m) (duration rnd (idle_timing (timings (config p))) r) hs)"

text \<open>The body of a timer callback, run when its timer fires.\<close>

definition runCallback ::
  "(real \<Rightarrow> real) \<Rightarrow> (nat \<Rightarrow> real) \<Rightarrow> callback \<Rightarrow> HookState \<Rightarrow> HookState" where
  "runCallback rnd random cb hs =
     (case cb of
        DreamEnd \<Rightarrow> hs\<lparr> mode := idle, calls := calls hs @ [OnDreamComplete] \<rparr>
      | ObserveEnd \<Rightarrow> hs\<lparr> mode := idle \<rparr>
      | FocusEnd p \<Rightarrow>
          let hs = hs\<lparr> mode := playing \<rparr>;
              (r, hs) = math_random random hs;
              i = \<lfloor>rnd (r * of_nat (length (sigilPoints p)))\<rfloor>;
              hs = (if 0 \<le> i \<and> nat i < length (sigilPoints p) then
                      let randomSigil = sigilPoints p ! nat i
                      in hs\<lparr> focusedSigil := Some (sigil_id randomSigil),
                             calls := calls hs @ [OnFocusChange (Some (sigil_id randomSigil))]
                                        @ (if onPlay p then [OnPlay] else []) \<rparr>
                    else hs);
              (r, hs) = math_random random hs
          in setTimeout PlayEnd (duration rnd (playing_timing (timings (config p))) r) hs
      | PlayEnd \<Rightarrow>
          hs\<lparr> focusedSigil := None, calls := calls hs @ [OnFocusChange None], mode := idle \<rparr>
      | Retransition p m \<Rightarrow> transitionToNextMode rnd random p m hs)"

text \<open>The browser fires the pending timer with handle \<open>h\<close>.\<close>

definition fireTimer :: "(real \<Rightarrow> real) \<Rightarrow> (nat \<Rightarrow> real) \<Rightarrow> nat \<Rightarrow> HookState \<Rightarrow> HookState" where
  "fireTimer rnd random h hs =
     (case find (\<lambda>(h', d, cb). h' = h) (timers hs) of
        None \<Rightarrow> hs
      | Some (h', d, cb) \<Rightarrow> runCallback rnd random cb (clearTimeout h hs))"

subsection \<open>The effect\<close>

text \<open>
  The effect \<open>useEffect(..., [mode, transitionToNextMode])\<close>: its body calls
  \<open>transitionToNextMode\<close> of the current render when the mode is idle, its cleanup
  clears the timer in \<open>timerRef.current\<close>. React runs the cleanup and then the body
  after every render in which a dependency has changed; \<open>transitionToNextMode\<close>
  changes with \<open>mode\<close>, \<open>sigilPoints\<close>, the callbacks and \<open>options\<close>.
\<close>

definition effectCleanup :: "HookState \<Rightarrow> HookState" where
  "effectCleanup hs =
     (case timerRef hs of
        None \<Rightarrow> hs
      | Some h \<Rightarrow> if h \<noteq> 0 then clearTimeout h hs else hs)"

definition effectBody :: "(real \<Rightarrow> real) \<Rightarrow> (nat \<Rightarrow> real) \<Rightarrow> HookState \<Rightarrow> HookState" where
  "effectBody rnd random hs =
     (if mode hs = idle then transitionToNextMode rnd random (props hs) (mode hs) hs else hs)"

definition rerunEffect :: "(real \<Rightarrow> real) \<Rightarrow> (nat \<Rightarrow> real) \<Rightarrow> HookState \<Rightarrow> HookState" where
  "rerunEffect rnd random hs = effectBody rnd random (effectCleanup hs)"

text \<open>
  A state update is followed by a render, which is committed before the next timer
  fires. \<open>afterUpdate m hs\<close> is the state once the renders have settled, where \<open>m\<close>
  was the mode of the last render: if the mode is now another, the effect runs again;
  if that run changes the mode (from idle), the effect runs once more, with a mode that
  is not idle, and changes nothing further.
\<close>

definition afterUpdate ::
  "(real \<Rightarrow> real) \<Rightarrow> (nat \<Rightarrow> real) \<Rightarrow> GuardianAIMode \<Rightarrow> HookState \<Rightarrow> HookState" where
  "afterUpdate rnd random m hs =
     (if mode hs = m then hs
      else let hs1 = rerunEffect rnd random hs
           in if mode hs1 = mode hs then hs1 else rerunEffect rnd random hs1)"

definition initialState :: "Props \<Rightarrow> HookState" where
  "initialState p =
     \<lparr> mode = idle, focusedSigil = None, timerRef = None, timers = [], nextTimer = 1,
       drawn = 0, calls = [], props = p \<rparr>"

definition mount :: "(real \<Rightarrow> real) \<Rightarrow> (nat \<Rightarrow> real) \<Rightarrow> Props \<Rightarrow> HookState" where
  "mount rnd random p = afterUpdate rnd random idle (effectBody rnd random (initialState p))"

text \<open>
  What can happen to a mounted hook: a pending timer fires, or the parent renders
  again with props that make the effect run again.
\<close>

datatype event = TimerFires nat | Render Props

definition step :: "(real \<Rightarrow> real) \<Rightarrow> (nat \<Rightarrow> real) \<Rightarrow> HookState \<Rightarrow> event \<Rightarrow> HookState" where
  "step rnd random hs ev =
     (case ev of
        TimerFires h \<Rightarrow> afterUpdate rnd random (mode hs) (fireTimer rnd random h hs)
      | Render p \<Rightarrow> afterUpdate rnd random (mode hs) (rerunEffect rnd random (hs\<lparr> props := p \<rparr>)))"

definition run :: "(real \<Rightarrow> real) \<Rightarrow> (nat \<Rightarrow> real) \<Rightarrow> event list \<Rightarrow> HookState \<Rightarrow> HookState" where
  "run rnd random evs hs = foldl (step rnd random) hs evs"

text \<open>The callback of the timer that was armed last, if a timer is pending.\<close>

definition lastArmed :: "HookState \<Rightarrow> callback option" where
  "lastArmed hs = (case timers hs of [] \<Rightarrow> None | t # ts \<Rightarrow> Some (snd (snd (last (t # ts)))))"

text \<open>
  At most one timer is pending, and it is the one \<open>timerRef.current\<close> refers to; timer
  handles are positive.
\<close>

definition oneTimer :: "HookState \<Rightarrow> bool" where
  "oneTimer hs \<longleftrightarrow>
     nextTimer hs \<noteq> 0 \<and>
     (timers hs = [] \<or> (\<exists>h d cb. h \<noteq> 0 \<and> timers hs = [(h, d, cb)] \<and> timerRef hs = Some h))"

section \<open>The Field on a platform\<close>

text \<open>
  In \<open>initField\<close> above the operations on numbers were taken exact, the numbers in
  them being small integers. Here is \<open>initField\<close> once more as a platform computes
  it whose double arithmetic rounds with \<open>rnd\<close>: every \<open>+\<close>, \<open>-\<close> and \<open>*\<close> on
  numbers yields the rounded exact result. The bitwise operators convert their operands
  with ToInt32 or ToUint32, which truncate a number towards zero first. Loop counters
  and array lengths are integers that \<open>i++\<close> keeps exact; they stay natural numbers.
  The bigint operations are as before. The arrays \<open>pulse\<close> and \<open>ring\<close> hold the
  integers that the numbers computed for them denote.
\<close>

definition num_trunc :: "real \<Rightarrow> int" where
  "num_trunc x = (if x < 0 then \<lceil>x\<rceil> else \<lfloor>x\<rfloor>)"

text \<open>\<open>xs[j]\<close> for a number \<open>j\<close>: undefined unless \<open>j\<close> is an index of \<open>xs\<close>.\<close>

definition elemAt :: "real list \<Rightarrow> real \<Rightarrow> real option" where
  "elemAt xs j =
     (if 0 \<le> j \<and> of_int \<lfloor>j\<rfloor> = j \<and> nat \<lfloor>j\<rfloor> < length xs then Some (xs ! nat \<lfloor>j\<rfloor>)
      else None)"

text \<open>ToInt32 of an operand of \<open>^\<close>; undefined counts as 0.\<close>

definition int32Of :: "real option \<Rightarrow> int" where
  "int32Of v = (case v of None \<Rightarrow> 0 | Some x \<Rightarrow> toInt32 (num_trunc x))"

fun toDigitsOn :: "(real \<Rightarrow> real) \<Rightarrow> jsstring \<Rightarrow> error + real list" where
  "toDigitsOn rnd [] = Inr []"
| "toDigitsOn rnd (ch # s) =
     (let d = rnd (of_int (charCode ch) - 48) in
      if d < 0 \<or> d > 9 then Inl NonDigit
      else case toDigitsOn rnd s of Inl e \<Rightarrow> Inl e | Inr ds \<Rightarrow> Inr (d # ds))"

definition pulseOn :: "(real \<Rightarrow> real) \<Rightarrow> real list \<Rightarrow> real list \<Rightarrow> real list \<Rightarrow> real list" where
  "pulseOn rnd r k b =
     map (\<lambda>i. num_fmod
                (of_int (toInt32 (int32Of (Some (r ! i))
                                  XOR int32Of (elemAt k (num_fmod (rnd (of_nat i * 7)) 60)))
                         XOR int32Of (elemAt b (num_fmod (rnd (of_nat i * 13)) 60))))
                10)
       [0..<length r]"

definition ringOn :: "(real \<Rightarrow> real) \<Rightarrow> real list \<Rightarrow> real list \<Rightarrow> real list \<Rightarrow> real list" where
  "ringOn rnd r k b = map (\<lambda>i. num_fmod (rnd (rnd (r ! i + k ! i) + b ! i)) 10) [0..<60]"

fun base10ToHexOn_loop :: "(real \<Rightarrow> real) \<Rightarrow> jsstring \<Rightarrow> nat \<Rightarrow> real \<Rightarrow> string" where
  "base10ToHexOn_loop rnd [] i acc = []"
| "base10ToHexOn_loop rnd (ch # s) i acc =
     (let acc' = of_int (num_and
                   (toUint32 (num_trunc (rnd (rnd (acc * 17) + rnd (of_int (charCode ch) - 48)))))
                   0xffffffff)
      in hexTable ! nat (num_and (num_xor (num_trunc acc') (num_trunc (rnd (of_nat i * 7)))) 15)
           # base10ToHexOn_loop rnd s (Suc i) acc')"

definition base10ToHexOn :: "(real \<Rightarrow> real) \<Rightarrow> jsstring \<Rightarrow> string" where
  "base10ToHexOn rnd digitStr = base10ToHexOn_loop rnd digitStr 0 0"

definition initFieldOn :: "(real \<Rightarrow> real) \<Rightarrow> jsstring \<Rightarrow> error + Field" where
  "initFieldOn rnd seedName =
     (case toDigitsOn rnd RED of Inl e \<Rightarrow> Inl e | Inr r \<Rightarrow>
      case toDigitsOn rnd BLACK of Inl e \<Rightarrow> Inl e | Inr k \<Rightarrow>
      case toDigitsOn rnd BLUE of Inl e \<Rightarrow> Inl e | Inr b \<Rightarrow>
      let seedStr = interleave3 RED BLACK BLUE in
      case bigIntOfHex (base10ToHexOn rnd (seedStr @ seedName)) of Inl e \<Rightarrow> Inl e | Inr sBI \<Rightarrow>
        Inr \<lparr> seed = seedName, red = RED, black = BLACK, blue = BLUE,
              ring = map num_trunc (ringOn rnd r k b), pulse = map num_trunc (pulseOn rnd r k b),
              seedBI = sBI,
              s0 = mix64 sBI,
              s1 = mix64 (sBI XOR 0xa5a5a5a5a5a5a5a5) \<rparr>)"

section \<open>The mounted hook\<close>

text \<open>
  No callback of the parent has been called, no sigil is focused, the mode is not
  playing, and a timer pending in mode idle only re-arms \<open>transitionToNextMode\<close>.
\<close>

definition quietHook :: "HookState \<Rightarrow> bool" where
  "quietHook hs \<longleftrightarrow>
     calls hs = [] \<and> focusedSigil hs = None \<and> mode hs \<noteq> playing \<and>
     (mode hs = idle \<longrightarrow> (\<forall>t \<in> set (timers hs). \<exists>p. snd (snd t) = Retransition p idle))"


section \<open>Verification\<close>

subsection \<open>Roundings\<close>

lemma rounding_mono: "rounding rnd \<Longrightarrow> x \<le> y \<Longrightarrow> rnd x \<le> rnd y"
  by (simp add: rounding_def)

lemma rounding_half: "rounding rnd \<Longrightarrow> \<bar>k\<bar> \<le> 2 ^ 53 \<Longrightarrow> rnd (of_int k / 2) = of_int k / 2"
  by (simp add: rounding_def)

lemma rounding_int:
  assumes "rounding rnd" and "\<bar>k\<bar> \<le> 2 ^ 52"
  shows "rnd (of_int k) = of_int k"
proof -
  have "\<bar>2 * k\<bar> \<le> 2 ^ 53" using assms(2) by simp
  from rounding_half [OF assms(1) this] show ?thesis by simp
qed

lemma rounding_zero: "rounding rnd \<Longrightarrow> rnd 0 = 0"
  using rounding_int [of rnd 0] by simp

lemma rounding_nonneg: "rounding rnd \<Longrightarrow> 0 \<le> x \<Longrightarrow> 0 \<le> rnd x"
  using rounding_mono [of rnd 0 x] rounding_zero [of rnd] by simp

lemma rounding_id: "rounding (\<lambda>x. x)"
  by (simp add: rounding_def)

lemma num_fmod_range:
  assumes "0 \<le> a"
  shows "0 \<le> num_fmod a 100" and "num_fmod a 100 < 100"
proof -
  have q: "\<not> a / 100 < 0" using assms by simp
  have eq: "num_fmod a 100 = a - 100 * of_int \<lfloor>a / 100\<rfloor>"
    using q by (simp add: num_fmod_def)
  have "of_int \<lfloor>a / 100\<rfloor> \<le> a / 100" by linarith
  then have "100 * of_int \<lfloor>a / 100\<rfloor> \<le> a" by linarith
  then show "0 \<le> num_fmod a 100" using eq by linarith
  have "a / 100 < of_int \<lfloor>a / 100\<rfloor> + 1" by linarith
  then have "a < 100 * of_int \<lfloor>a / 100\<rfloor> + 100" by linarith
  then show "num_fmod a 100 < 100" using eq by linarith
qed

lemma math_round_range:
  assumes "0 \<le> x" and "x \<le> 100"
  shows "0 \<le> math_round x" and "math_round x \<le> 100"
proof -
  have "0 \<le> \<lfloor>x + 1 / 2\<rfloor>" using assms(1) by simp
  then show "0 \<le> math_round x" by (simp add: math_round_def)
  have "x + 1 / 2 < 101" using assms(2) by simp
  then have "\<lfloor>x + 1 / 2\<rfloor> < 101" by linarith
  then have "\<lfloor>x + 1 / 2\<rfloor> \<le> 100" by simp
  then have "(of_int \<lfloor>x + 1 / 2\<rfloor> :: real) \<le> of_int 100" by (simp only: of_int_le_iff)
  then show "math_round x \<le> 100" by (simp add: math_round_def)
qed

subsection \<open>Fibonacci and Lucas numbers\<close>

lemma fibonacci_add:
  "fibonacci (Suc (m + n)) = fibonacci (Suc m) * fibonacci (Suc n) + fibonacci m * fibonacci n"
  by (induction m rule: fibonacci.induct) (simp_all add: algebra_simps)

lemma fibonacci_double:
  "fibonacci (2 * k) = fibonacci k * (2 * fibonacci (Suc k) - fibonacci k)"
proof (cases k)
  case 0
  then show ?thesis by simp
next
  case (Suc j)
  have "fibonacci (2 * k) = fibonacci (Suc (j + k))"
    using Suc by (simp add: mult_2)
  also have "\<dots> = fibonacci (Suc j) * fibonacci (Suc k) + fibonacci j * fibonacci k"
    by (rule fibonacci_add)
  also have "\<dots> = fibonacci k * (2 * fibonacci (Suc k) - fibonacci k)"
    using Suc by (simp add: algebra_simps)
  finally show ?thesis .
qed

lemma fibonacci_double_Suc:
  "fibonacci (Suc (2 * k)) = fibonacci k * fibonacci k + fibonacci (Suc k) * fibonacci (Suc k)"
  using fibonacci_add [of k k] by (simp add: mult_2 add.commute)

lemma fn_fibonacci: "fn n = (fibonacci n, fibonacci (Suc n))"
proof (induction n rule: less_induct)
  case (less n)
  show ?case
  proof (cases "n = 0")
    case True
    then show ?thesis by (simp add: fn.simps)
  next
    case False
    define k where "k = n div 2"
    have kn: "k < n" using False by (simp add: k_def)
    have ih: "fn k = (fibonacci k, fibonacci (Suc k))"
      using less.IH [OF kn] .
    show ?thesis
    proof (cases "n mod 2 = 0")
      case True
      then have n: "n = 2 * k" by (auto simp: k_def)
      have "fn n = (fibonacci k * (2 * fibonacci (Suc k) - fibonacci k),
                    fibonacci k * fibonacci k + fibonacci (Suc k) * fibonacci (Suc k))"
        using False True ih by (subst fn.simps) (simp add: k_def [symmetric] Let_def)
      then show ?thesis
        by (simp only: n fibonacci_double fibonacci_double_Suc)
    next
      case odd: False
      then have n: "n = Suc (2 * k)" by (simp add: k_def) presburger
      have "fn n = (fibonacci k * fibonacci k + fibonacci (Suc k) * fibonacci (Suc k),
                    fibonacci k * (2 * fibonacci (Suc k) - fibonacci k)
                    + (fibonacci k * fibonacci k + fibonacci (Suc k) * fibonacci (Suc k)))"
        using False odd ih by (subst fn.simps) (simp add: k_def [symmetric] Let_def mult.commute)
      moreover have "fibonacci (Suc (Suc (2 * k))) = fibonacci (2 * k) + fibonacci (Suc (2 * k))"
        by simp
      ultimately show ?thesis
        by (simp only: n fibonacci_double fibonacci_double_Suc)
    qed
  qed
qed

lemma lucas_number_fibonacci: "lucas_number n = 2 * fibonacci (Suc n) - fibonacci n"
  by (induction n rule: lucas_number.induct) simp_all

lemma fibFast_nat: "fibFast (Number (Finite (of_nat n))) = Inr (fibonacci n, fibonacci (Suc n))"
  by (simp add: fibFast_def math_floor_def math_max0_def bigIntOfNumber_def fn_fibonacci)

lemma fib_nat: "fib (Finite (of_nat n)) = Inr (fibonacci n)"
  by (simp add: fib_def fibFast_nat)

lemma lucas_nat: "lucas (Finite (of_nat n)) = Inr (lucas_number n)"
  by (cases "n = 0") (simp_all add: lucas_def math_max0_def fibFast_nat lucas_number_fibonacci)

lemma fibFast_bigint_nonpos: "k \<le> 0 \<Longrightarrow> fibFast (BigInt k) = Inr (0, 1)"
  by (simp add: fibFast_def fn.simps)

lemma fibFast_number_nonpos: "x \<le> 0 \<Longrightarrow> fibFast (Number (Finite x)) = Inr (0, 1)"
proof -
  assume "x \<le> 0"
  then have "\<lfloor>x\<rfloor> \<le> 0" by linarith
  then have "max 0 (of_int \<lfloor>x\<rfloor> :: real) = 0" by simp
  then show ?thesis
    by (simp add: fibFast_def math_floor_def math_max0_def bigIntOfNumber_def fn.simps)
qed

lemma fibFast_NegInfinity: "fibFast (Number NegInfinity) = Inr (0, 1)"
  by (simp add: fibFast_def math_floor_def math_max0_def bigIntOfNumber_def fn.simps)

lemma lucas_nonpos: "x \<le> 0 \<Longrightarrow> lucas (Finite x) = Inr 2"
proof -
  assume x: "x \<le> 0"
  then have "max 0 x = 0" by simp
  then show ?thesis
    using fibFast_number_nonpos [of 0] by (simp add: lucas_def math_max0_def)
qed

lemma fib_numeral_values:
  "fib (Finite 0) = Inr 0" "fib (Finite 1) = Inr 1" "fib (Finite 2) = Inr 1"
  "fib (Finite 10) = Inr 55" "fib (Finite 20) = Inr 6765"
proof -
  have v: "fibonacci 0 = 0" "fibonacci 1 = 1" "fibonacci 2 = 1" "fibonacci 10 = 55"
    "fibonacci 20 = 6765"
    by code_simp+
  show "fib (Finite 0) = Inr 0" using fib_nat [of 0] by simp
  show "fib (Finite 1) = Inr 1" using fib_nat [of 1] v by simp
  show "fib (Finite 2) = Inr 1" using fib_nat [of 2] v by simp
  show "fib (Finite 10) = Inr 55" using fib_nat [of 10] v by simp
  show "fib (Finite 20) = Inr 6765" using fib_nat [of 20] v by simp
qed

lemma lucas_numeral_values:
  "lucas (Finite 0) = Inr 2" "lucas (Finite 1) = Inr 1" "lucas (Finite 6) = Inr 18"
  "lucas (Finite 8) = Inr 47"
proof -
  have v: "lucas_number 1 = 1" "lucas_number 6 = 18" "lucas_number 8 = 47"
    by code_simp+
  show "lucas (Finite 0) = Inr 2" by (simp add: lucas_def)
  show "lucas (Finite 1) = Inr 1" using lucas_nat [of 1] v by simp
  show "lucas (Finite 6) = Inr 18" using lucas_nat [of 6] v by simp
  show "lucas (Finite 8) = Inr 47" using lucas_nat [of 8] v by simp
qed

text \<open>
  Claim C3. \<open>fib\<close> and \<open>lucas\<close> return the Fibonacci and Lucas numbers on every
  non-negative integer, in particular fib(0)=0, fib(1)=1, fib(2)=1, fib(10)=55,
  fib(20)=6765, lucas(0)=2, lucas(1)=1, lucas(6)=18 and lucas(8)=47; for every
  \<open>n \<le> 0\<close>, bigint or number (\<open>-Infinity\<close> included), \<open>fibFast(n)\<close> returns the
  pair (0, 1) without an error, so that \<open>fib(n) = 0\<close> and \<open>lucas(n) = 2\<close> there.
\<close>

theorem fib_lucas_correct:
  "fib (Finite 0) = Inr 0 \<and> fib (Finite 1) = Inr 1 \<and> fib (Finite 2) = Inr 1
   \<and> fib (Finite 10) = Inr 55 \<and> fib (Finite 20) = Inr 6765
   \<and> lucas (Finite 0) = Inr 2 \<and> lucas (Finite 1) = Inr 1
   \<and> lucas (Finite 6) = Inr 18 \<and> lucas (Finite 8) = Inr 47
   \<and> (\<forall>n::nat. fib (Finite (of_nat n)) = Inr (fibonacci n)
               \<and> lucas (Finite (of_nat n)) = Inr (lucas_number n))
   \<and> (\<forall>k. k \<le> 0 \<longrightarrow> fibFast (BigInt k) = Inr (0, 1))
   \<and> (\<forall>x. x \<le> 0 \<longrightarrow> fibFast (Number (Finite x)) = Inr (0, 1)
               \<and> fib (Finite x) = Inr 0 \<and> lucas (Finite x) = Inr 2)
   \<and> fibFast (Number NegInfinity) = Inr (0, 1)
   \<and> fib NegInfinity = Inr 0 \<and> lucas NegInfinity = Inr 2"
proof -
  have a: "\<forall>n::nat. fib (Finite (of_nat n)) = Inr (fibonacci n)
               \<and> lucas (Finite (of_nat n)) = Inr (lucas_number n)"
    by (simp add: fib_nat lucas_nat)
  have b: "\<forall>k. k \<le> 0 \<longrightarrow> fibFast (BigInt k) = Inr (0, 1)"
    by (simp add: fibFast_bigint_nonpos)
  have c: "\<forall>x. x \<le> 0 \<longrightarrow> fibFast (Number (Finite x)) = Inr (0, 1)
               \<and> fib (Finite x) = Inr 0 \<and> lucas (Finite x) = Inr 2"
    by (simp add: fibFast_number_nonpos lucas_nonpos fib_def)
  have d: "fibFast (Number NegInfinity) = Inr (0, 1) \<and> fib NegInfinity = Inr 0
           \<and> lucas NegInfinity = Inr 2"
    using fibFast_number_nonpos [of 0]
    by (simp add: fibFast_NegInfinity fib_def lucas_def math_max0_def)
  show ?thesis
    using fib_numeral_values lucas_numeral_values a b c d by blast
qed

theorem fib_lucas_correct_witness:
  "(-3 :: int) \<le> 0 \<and> fibFast (BigInt (-3)) = Inr (0, 1)
   \<and> (-5 / 2 :: real) \<le> 0 \<and> fibFast (Number (Finite (-5 / 2))) = Inr (0, 1)
   \<and> fib (Finite (-5 / 2)) = Inr 0 \<and> lucas (Finite (-5 / 2)) = Inr 2"
proof -
  have b: "\<forall>k. k \<le> 0 \<longrightarrow> fibFast (BigInt k) = Inr (0, 1)"
    and c: "\<forall>x. x \<le> 0 \<longrightarrow> fibFast (Number (Finite x)) = Inr (0, 1)
               \<and> fib (Finite x) = Inr 0 \<and> lucas (Finite x) = Inr 2"
    using fib_lucas_correct by blast+
  have "(-3 :: int) \<le> 0" and "(-5 / 2 :: real) \<le> 0" by simp_all
  then show ?thesis using b c by blast
qed

subsection \<open>Fields\<close>

lemma toDigits_RED: "toDigits RED = Inr [1,1,3,0,3,1,4,9,1,4,9,3,5,8,5,3,8,9,5,4,3,7,7,8,7,7,4,5,9,0,9,9,7,0,7,9,6,1,9,6,1,7,5,2,5,7,2,1,5,6,7,3,3,2,3,3,6,5,1,0]"
  by (simp add: RED_def lit_def charCode_def)

lemma toDigits_BLACK: "toDigits BLACK = Inr [0,1,1,2,3,5,8,3,1,4,5,9,4,3,7,0,7,7,4,1,5,6,1,7,8,5,3,8,1,9,0,9,9,8,7,5,2,7,9,6,5,1,6,7,3,0,3,3,6,9,5,4,9,3,2,5,7,2,9,1]"
  by (simp add: BLACK_def lit_def charCode_def)

lemma toDigits_BLUE: "toDigits BLUE = Inr [0,1,2,7,7,6,3,2,9,7,8,5,8,9,3,0,3,6,1,1,8,9,6,7,1,4,5,4,7,9,0,9,8,3,3,4,7,8,1,3,2,5,2,1,7,0,7,4,9,9,2,1,4,3,9,6,5,6,3,1]"
  by (simp add: BLUE_def lit_def charCode_def)

lemma num_and_15_range: "0 \<le> num_and a 15 \<and> num_and a 15 < 16"
proof -
  have t: "toInt32 15 = 15" by (simp add: toInt32_def)
  have "toInt32 a AND 15 \<le> 15" by (rule AND_upper2) simp
  then show ?thesis by (simp add: num_and_def t)
qed

lemma hexDigit_table: "n < 16 \<Longrightarrow> hexDigit (hexTable ! n) = Some (int n)"
proof -
  assume "n < 16"
  then have "n \<in> {0, 1, 2, 3, 4, 5, 6, 7, 8, 9, 10, 11, 12, 13, 14, 15}" by simp arith
  then show ?thesis by (auto simp: hexTable_def hexDigit_def)
qed

lemma hexValue_base10ToHex_loop: "\<exists>w. hexValue v (base10ToHex_loop s i acc) = Some w"
proof (induction s arbitrary: v i acc)
  case Nil
  then show ?case by simp
next
  case (Cons ch s)
  define acc' where "acc' = num_and (toUint32 (acc * 17 + (charCode ch - 48))) 0xffffffff"
  define n where "n = nat (num_and (num_xor acc' (int i * 7)) 15)"
  have n: "n < 16" using num_and_15_range [of "num_xor acc' (int i * 7)"] unfolding n_def by linarith
  have "base10ToHex_loop (ch # s) i acc = hexTable ! n # base10ToHex_loop s (Suc i) acc'"
    by (simp add: acc'_def n_def Let_def)
  then show ?case using Cons.IH [of "v * 16 + int n" "Suc i" acc'] hexDigit_table [OF n] by simp
qed

lemma base10ToHex_loop_Nil: "base10ToHex_loop s i acc = [] \<longleftrightarrow> s = []"
  by (cases s) (simp_all add: Let_def)

lemma seedStr_not_Nil: "interleave3 RED BLACK BLUE \<noteq> []"
  by (simp add: RED_def BLACK_def BLUE_def lit_def)

lemma bigIntOfHex_seed: "\<exists>w. bigIntOfHex (base10ToHex (interleave3 RED BLACK BLUE @ seedName)) = Inr w"
proof -
  have "base10ToHex (interleave3 RED BLACK BLUE @ seedName) \<noteq> []"
    using seedStr_not_Nil by (simp add: base10ToHex_def base10ToHex_loop_Nil)
  moreover obtain w where "hexValue 0 (base10ToHex (interleave3 RED BLACK BLUE @ seedName)) = Some w"
    using hexValue_base10ToHex_loop [of 0 "interleave3 RED BLACK BLUE @ seedName" 0 0]
    by (auto simp: base10ToHex_def)
  ultimately show ?thesis by (simp add: bigIntOfHex_def)
qed

lemma pulse_value: "pulseOf
   [1,1,3,0,3,1,4,9,1,4,9,3,5,8,5,3,8,9,5,4,3,7,7,8,7,7,4,5,9,0,9,9,7,0,7,9,6,1,9,6,1,7,5,2,5,7,2,1,5,6,7,3,3,2,3,3,6,5,1,0]
   [0,1,1,2,3,5,8,3,1,4,5,9,4,3,7,0,7,7,4,1,5,6,1,7,8,5,3,8,1,9,0,9,9,8,7,5,2,7,9,6,5,1,6,7,3,0,3,3,6,9,5,4,9,3,2,5,7,2,9,1]
   [0,1,2,7,7,6,3,2,9,7,8,5,8,9,3,0,3,6,1,1,8,9,6,7,1,4,5,4,7,9,0,9,8,3,3,4,7,8,1,3,2,5,2,1,7,0,7,4,9,9,2,1,4,3,9,6,5,6,3,1]
  = [1,1,1,5,6,2,3,9,1,0,4,3,0,8,4,3,6,3,4,5,4,2,7,8,9,6,4,0,9,1,9,5,1,3,8,8,1,1,9,0,6,7,4,2,2,7,0,3,6,9,0,6,3,2,5,0,6,0,1,7]"
  by code_simp

lemma ring_value: "ringOf
   [1,1,3,0,3,1,4,9,1,4,9,3,5,8,5,3,8,9,5,4,3,7,7,8,7,7,4,5,9,0,9,9,7,0,7,9,6,1,9,6,1,7,5,2,5,7,2,1,5,6,7,3,3,2,3,3,6,5,1,0]
   [0,1,1,2,3,5,8,3,1,4,5,9,4,3,7,0,7,7,4,1,5,6,1,7,8,5,3,8,1,9,0,9,9,8,7,5,2,7,9,6,5,1,6,7,3,0,3,3,6,9,5,4,9,3,2,5,7,2,9,1]
   [0,1,2,7,7,6,3,2,9,7,8,5,8,9,3,0,3,6,1,1,8,9,6,7,1,4,5,4,7,9,0,9,8,3,3,4,7,8,1,3,2,5,2,1,7,0,7,4,9,9,2,1,4,3,9,6,5,6,3,1]
  = [1,3,6,9,3,2,5,4,1,5,2,7,7,0,5,3,8,2,0,6,6,2,4,2,6,6,2,7,7,8,9,7,4,1,7,8,5,6,9,5,8,3,3,0,5,7,2,8,0,4,4,8,6,8,4,4,8,3,3,2]"
  by code_simp

lemma initField_Inr:
  "\<exists>sBI. bigIntOfHex (base10ToHex (interleave3 RED BLACK BLUE @ seedName)) = Inr sBI \<and>
     initField seedName =
       Inr \<lparr> seed = seedName, red = RED, black = BLACK, blue = BLUE,
             ring = [1,3,6,9,3,2,5,4,1,5,2,7,7,0,5,3,8,2,0,6,6,2,4,2,6,6,2,7,7,8,9,7,4,1,7,8,5,6,9,5,8,3,3,0,5,7,2,8,0,4,4,8,6,8,4,4,8,3,3,2],
             pulse = [1,1,1,5,6,2,3,9,1,0,4,3,0,8,4,3,6,3,4,5,4,2,7,8,9,6,4,0,9,1,9,5,1,3,8,8,1,1,9,0,6,7,4,2,2,7,0,3,6,9,0,6,3,2,5,0,6,0,1,7],
             seedBI = sBI, s0 = mix64 sBI, s1 = mix64 (sBI XOR 0xa5a5a5a5a5a5a5a5) \<rparr>"
proof -
  obtain w where w: "bigIntOfHex (base10ToHex (interleave3 RED BLACK BLUE @ seedName)) = Inr w"
    using bigIntOfHex_seed by blast
  show ?thesis
    unfolding initField_def toDigits_RED toDigits_BLACK toDigits_BLUE
    by (simp only: w sum.case Let_def pulse_value ring_value) simp
qed

lemma initField_pulse:
  assumes "initField seedName = Inr f"
  shows "pulse f = [1,1,1,5,6,2,3,9,1,0,4,3,0,8,4,3,6,3,4,5,4,2,7,8,9,6,4,0,9,1,9,5,1,3,8,8,1,1,9,0,6,7,4,2,2,7,0,3,6,9,0,6,3,2,5,0,6,0,1,7]"
  using initField_Inr [of seedName] assms by auto

lemma initField_ring:
  assumes "initField seedName = Inr f"
  shows "ring f = [1,3,6,9,3,2,5,4,1,5,2,7,7,0,5,3,8,2,0,6,6,2,4,2,6,6,2,7,7,8,9,7,4,1,7,8,5,6,9,5,8,3,3,0,5,7,2,8,0,4,4,8,6,8,4,4,8,3,3,2]"
  using initField_Inr [of seedName] assms by auto

lemma initField_sums:
  assumes "initField seedName = Inr f"
  shows "sliceSum (pulse f) 20 = 69" and "sliceSum (ring f) 20 = 79"
    and "sliceSum (pulse f) 10 = 29" and "sliceSum (ring f) 10 = 39"
  by (simp_all add: initField_pulse [OF assms] initField_ring [OF assms] sliceSum_def)

text \<open>
  Claim C10. The pulse and ring arrays of a Field do not depend on the seed name:
  \<open>initField\<close> succeeds on every name and gives the same two arrays; hence the genome
  derived from a Field and given vitals, and the partner genome that \<open>breedGuardian\<close>
  derives from the partner's name, are the same for every name.
\<close>

theorem pulse_ring_name_independent:
  "\<exists>f1 f2. initField name1 = Inr f1 \<and> initField name2 = Inr f2
     \<and> pulse f1 = pulse f2 \<and> ring f1 = ring f2
     \<and> (\<forall>rnd v. computeGenome rnd f1 v = computeGenome rnd f2 v)
     \<and> (\<forall>rnd. partnerGenome rnd f1 = partnerGenome rnd f2)"
proof -
  obtain f1 where f1: "initField name1 = Inr f1" using initField_Inr [of name1] by blast
  obtain f2 where f2: "initField name2 = Inr f2" using initField_Inr [of name2] by blast
  have p: "pulse f1 = pulse f2" by (simp add: initField_pulse [OF f1] initField_pulse [OF f2])
  have r: "ring f1 = ring f2" by (simp add: initField_ring [OF f1] initField_ring [OF f2])
  have "\<forall>rnd v. computeGenome rnd f1 v = computeGenome rnd f2 v"
    by (simp add: computeGenome_def p r)
  moreover have "\<forall>rnd. partnerGenome rnd f1 = partnerGenome rnd f2"
    by (simp add: partnerGenome_def p r)
  ultimately show ?thesis using f1 f2 p r by blast
qed

subsection \<open>The range of prng\<close>

lemma unit_draw_field:
  "(case initField (lit ''DGGGGGGILECEMCMPFJCPELMDCKNIBMFMIIDNKI'') of
      Inl e \<Rightarrow> False
    | Inr f \<Rightarrow> s0 f = 16873753320210100227 \<and> s1 f = 15558160933636546223)"
  by code_simp

lemma unit_draw_sum:
  "(let x = (16873753320210100227 :: int);
        y = (15558160933636546223 :: int);
        x = x XOR push_bit 23 x;
        x = x XOR drop_bit 17 x;
        x = x XOR (y XOR drop_bit 26 y)
    in (y + x) AND (push_bit 64 1 - 1)) = 18446744073709551594"
  by code_simp

lemma unit_draw_bitLength: "bitLength 18446744073709551594 = 64"
  by code_simp

lemma unit_draw_number: "numberOfBigInt 18446744073709551594 = 18446744073709551616"
  by (simp add: numberOfBigInt_def unit_draw_bitLength)

lemma unit_draw_prng:
  assumes "s0 f = 16873753320210100227" and "s1 f = 15558160933636546223"
  shows "fst (prng f) = 1"
proof -
  have "fst (prng f) = numberOfBigInt 18446744073709551594 / 18446744073709551616"
    using unit_draw_sum by (simp add: prng_def Let_def assms)
  then show ?thesis by (simp add: unit_draw_number)
qed

text \<open>
  Claim C2. The claim that every draw of a seeded Field is strictly below 1 fails: the
  Field seeded with the name below has state words whose sum, reduced to 64 bits, is
  \<open>2 ^ 64 - 22\<close>, which \<open>Number\<close> rounds to \<open>2 ^ 64\<close>, so that its first \<open>prng()\<close>
  returns exactly 1.
\<close>

theorem prng_returns_one:
  "\<exists>f. initField (lit ''DGGGGGGILECEMCMPFJCPELMDCKNIBMFMIIDNKI'') = Inr f \<and> fst (prng f) = 1"
proof (cases "initField (lit ''DGGGGGGILECEMCMPFJCPELMDCKNIBMFMIIDNKI'')")
  case (Inl e)
  then show ?thesis using unit_draw_field by simp
next
  case (Inr f)
  then have "s0 f = 16873753320210100227" and "s1 f = 15558160933636546223"
    using unit_draw_field by simp_all
  then have "fst (prng f) = 1" by (rule unit_draw_prng)
  with Inr show ?thesis by blast
qed

subsection \<open>The Field on a platform\<close>

lemma num_trunc_of_int: "num_trunc (of_int a) = a"
  by (simp add: num_trunc_def)

lemma charCode_range: "0 \<le> charCode ch \<and> charCode ch < 65536"
  using uint_bounded [of ch] by (simp add: charCode_def)

lemma rounding_small:
  assumes "rounding rnd" and "\<bar>k\<bar> \<le> 40000000000"
  shows "rnd (of_int k) = of_int k"
proof -
  have "\<bar>k\<bar> \<le> 2 ^ 52" using assms(2) by simp
  with assms(1) show ?thesis by (rule rounding_int)
qed

lemma rounding_digit:
  assumes "rounding rnd"
  shows "rnd (of_int (charCode ch) - 48) = of_int (charCode ch - 48)"
proof -
  have "\<bar>charCode ch - 48\<bar> \<le> 40000000000" using charCode_range [of ch] by linarith
  from rounding_small [OF assms this] show ?thesis by simp
qed

lemma toDigitsOn_toDigits:
  assumes "rounding rnd"
  shows "toDigitsOn rnd s = (case toDigits s of Inl e \<Rightarrow> Inl e | Inr ds \<Rightarrow> Inr (map of_int ds))"
proof (induction s)
  case Nil
  then show ?case by simp
next
  case (Cons ch s)
  define d where "d = charCode ch - 48"
  have r: "rnd (of_int (charCode ch) - 48) = of_int d"
    unfolding d_def by (rule rounding_digit [OF assms])
  have c: "((of_int d :: real) < 0) = (d < 0)" "((of_int d :: real) > 9) = (d > 9)"
    by linarith+
  have 1: "toDigitsOn rnd (ch # s) =
      (if d < 0 \<or> d > 9 then Inl NonDigit
       else case toDigitsOn rnd s of Inl e \<Rightarrow> Inl e | Inr ds \<Rightarrow> Inr (of_int d # ds))"
    by (simp only: toDigitsOn.simps r Let_def c)
  have 2: "toDigits (ch # s) =
      (if d < 0 \<or> d > 9 then Inl NonDigit
       else case toDigits s of Inl e \<Rightarrow> Inl e | Inr ds \<Rightarrow> Inr (d # ds))"
    by (simp only: toDigits.simps d_def Let_def)
  show ?case unfolding 1 2 Cons.IH by (simp split: sum.splits)
qed

lemma num_fmod_of_int:
  assumes "0 < b"
  shows "num_fmod (of_int a) (of_int b) = of_int (num_rem a b)"
proof (cases "a < 0")
  case False
  have q: "\<not> (of_int a / of_int b :: real) < 0"
    using False assms by (simp add: divide_less_0_iff)
  have "\<lfloor>(of_int a / of_int b :: real)\<rfloor> = a div b" by (rule floor_divide_of_int_eq)
  then have "num_fmod (of_int a) (of_int b) = of_int (a - b * (a div b))"
    using q by (simp add: num_fmod_def)
  also have "a - b * (a div b) = a mod b" by (simp add: minus_mult_div_eq_mod)
  also have "\<dots> = num_rem a b"
    using False assms by (cases "a = 0") (simp_all add: num_rem_def)
  finally show ?thesis .
next
  case True
  have q: "(of_int a / of_int b :: real) < 0"
    using True assms by (simp add: divide_less_0_iff)
  have "\<lceil>(of_int a / of_int b :: real)\<rceil> = - \<lfloor>- (of_int a / of_int b :: real)\<rfloor>"
    by (simp add: ceiling_def)
  also have "- (of_int a / of_int b :: real) = of_int (- a) / of_int b" by simp
  also have "\<lfloor>(of_int (- a) / of_int b :: real)\<rfloor> = (- a) div b"
    by (rule floor_divide_of_int_eq)
  finally have "num_fmod (of_int a) (of_int b) = of_int (a + b * ((- a) div b))"
    using q by (simp add: num_fmod_def)
  also have "a + b * ((- a) div b) = - ((- a) mod b)"
    using minus_mult_div_eq_mod [of "- a" b] by simp
  also have "\<dots> = num_rem a b" using True assms by (simp add: num_rem_def)
  finally show ?thesis .
qed

lemma num_rem_nonneg: "0 \<le> a \<Longrightarrow> 0 < b \<Longrightarrow> num_rem a b = a mod b"
  by (cases "a = 0") (simp_all add: num_rem_def)

lemma index_fmod:
  assumes "rounding rnd" and "i < 60" and "c = 7 \<or> c = 13"
  shows "num_fmod (rnd (of_nat i * of_nat c)) 60 = of_nat ((i * c) mod 60)"
proof -
  have "\<bar>int (i * c)\<bar> \<le> 40000000000" using assms(2, 3) by auto
  from rounding_small [OF assms(1) this]
  have "rnd (of_nat i * of_nat c) = of_int (int (i * c))" by simp
  moreover have "num_fmod (of_int (int (i * c))) (of_int 60) = of_int (num_rem (int (i * c)) 60)"
    by (rule num_fmod_of_int) simp
  moreover have "num_rem (int (i * c)) 60 = int ((i * c) mod 60)"
    by (simp add: num_rem_nonneg zmod_int)
  ultimately show ?thesis by simp
qed

lemma elemAt_map: "j < length k \<Longrightarrow> elemAt (map of_int k) (of_nat j) = Some (of_int (k ! j))"
  by (simp add: elemAt_def)

lemma int32Of_of_int: "int32Of (Some (of_int a)) = toInt32 a"
  by (simp add: int32Of_def num_trunc_of_int)

lemma pulseOn_pulseOf:
  assumes "rounding rnd" and "length r = 60" and "length k = 60" and "length b = 60"
  shows "pulseOn rnd (map of_int r) (map of_int k) (map of_int b) = map of_int (pulseOf r k b)"
proof -
  have "num_fmod (of_int (toInt32 (int32Of (Some (map of_int r ! i))
                  XOR int32Of (elemAt (map of_int k) (num_fmod (rnd (of_nat i * 7)) 60)))
                XOR int32Of (elemAt (map of_int b) (num_fmod (rnd (of_nat i * 13)) 60)))) 10
        = of_int (num_rem (num_xor (num_xor (r ! i) (k ! ((i * 7) mod 60))) (b ! ((i * 13) mod 60))) 10)"
    if i: "i < 60" for i
  proof -
    have 7: "num_fmod (rnd (of_nat i * 7)) 60 = of_nat ((i * 7) mod 60)"
      using index_fmod [OF assms(1) i, of 7] by simp
    have 13: "num_fmod (rnd (of_nat i * 13)) 60 = of_nat ((i * 13) mod 60)"
      using index_fmod [OF assms(1) i, of 13] by simp
    have e: "elemAt (map of_int k) (of_nat ((i * 7) mod 60)) = Some (of_int (k ! ((i * 7) mod 60)))"
      "elemAt (map of_int b) (of_nat ((i * 13) mod 60)) = Some (of_int (b ! ((i * 13) mod 60)))"
      using assms(3, 4) by (simp_all add: elemAt_map)
    have r: "map of_int r ! i = (of_int (r ! i) :: real)" using i assms(2) by simp
    have "num_fmod (of_int (toInt32 (toInt32 (r ! i) XOR toInt32 (k ! ((i * 7) mod 60)))
                  XOR toInt32 (b ! ((i * 13) mod 60)))) (of_int 10)
        = of_int (num_rem (toInt32 (toInt32 (r ! i) XOR toInt32 (k ! ((i * 7) mod 60)))
                  XOR toInt32 (b ! ((i * 13) mod 60))) 10)"
      by (rule num_fmod_of_int) simp
    then show ?thesis by (simp add: 7 13 e r int32Of_of_int num_xor_def)
  qed
  then show ?thesis
    using assms(2) by (simp add: pulseOn_def pulseOf_def)
qed

lemma ringOn_ringOf:
  assumes "rounding rnd" and "length r = 60" and "length k = 60" and "length b = 60"
    and "\<forall>i < 60. \<bar>r ! i\<bar> \<le> 9 \<and> \<bar>k ! i\<bar> \<le> 9 \<and> \<bar>b ! i\<bar> \<le> 9"
  shows "ringOn rnd (map of_int r) (map of_int k) (map of_int b) = map of_int (ringOf r k b)"
proof -
  have "num_fmod (rnd (rnd (map of_int r ! i + map of_int k ! i) + map of_int b ! i)) 10
        = of_int (num_rem (r ! i + k ! i + b ! i) 10)"
    if i: "i < 60" for i
  proof -
    have d: "\<bar>r ! i\<bar> \<le> 9" "\<bar>k ! i\<bar> \<le> 9" "\<bar>b ! i\<bar> \<le> 9" using assms(5) i by simp_all
    have n: "map of_int r ! i = (of_int (r ! i) :: real)" "map of_int k ! i = (of_int (k ! i) :: real)"
      "map of_int b ! i = (of_int (b ! i) :: real)"
      using i assms(2-4) by simp_all
    have "\<bar>r ! i + k ! i\<bar> \<le> 40000000000" using d by linarith
    from rounding_small [OF assms(1) this]
    have 1: "rnd (of_int (r ! i) + of_int (k ! i)) = of_int (r ! i + k ! i)" by simp
    have "\<bar>r ! i + k ! i + b ! i\<bar> \<le> 40000000000" using d by linarith
    from rounding_small [OF assms(1) this]
    have 2: "rnd (of_int (r ! i + k ! i) + of_int (b ! i)) = of_int (r ! i + k ! i + b ! i)"
      by simp
    have "num_fmod (of_int (r ! i + k ! i + b ! i)) (of_int 10)
          = of_int (num_rem (r ! i + k ! i + b ! i) 10)"
      by (rule num_fmod_of_int) simp
    then show ?thesis by (simp only: n 1 2) simp
  qed
  then show ?thesis by (simp add: ringOn_def ringOf_def)
qed

lemma toInt32_range: "- (2 ^ 31) \<le> toInt32 v \<and> toInt32 v < 2 ^ 31"
  using signed_take_bit_int_less_exp [of 31 v] signed_take_bit_int_greater_eq_minus_exp [of 31 v]
  by (simp add: toInt32_def)

lemma num_and_all_ones: "num_and v 0xffffffff = toInt32 v"
proof -
  have "toInt32 0xffffffff = - 1" by (simp add: toInt32_def)
  then show ?thesis by (simp add: num_and_def)
qed

lemma base10ToHexOn_loop_exact:
  assumes "rounding rnd" and "- (2 ^ 31) \<le> a \<and> a < 2 ^ 31"
    and "(i + length s) * 7 \<le> 2000000000000000"
  shows "base10ToHexOn_loop rnd s i (of_int a) = base10ToHex_loop s i a"
  using assms(2, 3)
proof (induction s arbitrary: i a)
  case Nil
  then show ?case by simp
next
  case (Cons ch s)
  define c where "c = charCode ch - 48"
  define a' where "a' = num_and (toUint32 (a * 17 + c)) 0xffffffff"
  have a: "- 2147483648 \<le> a" "a < 2147483648" using Cons.prems(1) by simp_all
  have cr: "- 48 \<le> c" "c < 65536" using charCode_range [of ch] by (simp_all add: c_def)
  have "\<bar>a * 17\<bar> \<le> 40000000000" using a by linarith
  from rounding_small [OF assms(1) this]
  have 1: "rnd (of_int a * 17) = of_int (a * 17)" by simp
  have 2: "rnd (of_int (charCode ch) - 48) = of_int c"
    unfolding c_def by (rule rounding_digit [OF assms(1)])
  have "\<bar>a * 17 + c\<bar> \<le> 40000000000" using a cr by linarith
  from rounding_small [OF assms(1) this]
  have 3: "rnd (of_int (a * 17) + of_int c) = of_int (a * 17 + c)" by simp
  have acc: "of_int (num_and
               (toUint32 (num_trunc (rnd (rnd (of_int a * 17) + rnd (of_int (charCode ch) - 48)))))
               0xffffffff) = (of_int a' :: real)"
    by (simp only: 1 2 3 num_trunc_of_int a'_def)
  have "\<bar>int (i * 7)\<bar> \<le> 2 ^ 52" using Cons.prems(2) by simp
  from rounding_int [OF assms(1) this]
  have 4: "rnd (of_nat i * 7) = of_int (int i * 7)" by simp
  have r: "- (2 ^ 31) \<le> a' \<and> a' < 2 ^ 31"
    unfolding a'_def num_and_all_ones by (rule toInt32_range)
  have l: "(Suc i + length s) * 7 \<le> 2000000000000000" using Cons.prems(2) by simp
  have "base10ToHexOn_loop rnd (ch # s) i (of_int a)
        = hexTable ! nat (num_and (num_xor a' (int i * 7)) 15)
            # base10ToHexOn_loop rnd s (Suc i) (of_int a')"
    by (simp only: base10ToHexOn_loop.simps acc Let_def 4 num_trunc_of_int)
  also have "\<dots> = hexTable ! nat (num_and (num_xor a' (int i * 7)) 15)
            # base10ToHex_loop s (Suc i) a'"
    by (simp only: Cons.IH [OF r l])
  also have "\<dots> = base10ToHex_loop (ch # s) i a"
    by (simp only: base10ToHex_loop.simps a'_def c_def Let_def)
  finally show ?case .
qed

lemma base10ToHexOn_exact:
  assumes "rounding rnd" and "length s * 7 \<le> 2000000000000000"
  shows "base10ToHexOn rnd s = base10ToHex s"
proof -
  have "(0 + length s) * 7 \<le> 2000000000000000" using assms(2) by simp
  from base10ToHexOn_loop_exact [OF assms(1) _ this, of 0]
  show ?thesis by (simp add: base10ToHexOn_def base10ToHex_def)
qed

lemma constant_digits:
  "\<exists>R K B. toDigits RED = Inr R \<and> toDigits BLACK = Inr K \<and> toDigits BLUE = Inr B
     \<and> length R = 60 \<and> length K = 60 \<and> length B = 60
     \<and> (\<forall>x \<in> set R. \<bar>x\<bar> \<le> 9) \<and> (\<forall>x \<in> set K. \<bar>x\<bar> \<le> 9) \<and> (\<forall>x \<in> set B. \<bar>x\<bar> \<le> 9)"
  by (simp add: toDigits_RED toDigits_BLACK toDigits_BLUE)

lemma seedStr_length: "length (interleave3 RED BLACK BLUE) = 180"
  by (simp add: RED_def BLACK_def BLUE_def lit_def)

lemma map_num_trunc_of_int: "map num_trunc (map of_int xs) = xs"
  by (simp add: num_trunc_of_int comp_def)

text \<open>
  Under every rounding, \<open>initField\<close> computes on a platform what it computes with exact
  numbers: no operation on numbers in it leaves the integers that doubles hold exactly.
\<close>

lemma initFieldOn_initField:
  assumes "rounding rnd" and "length seedName \<le> 2 ^ 48"
  shows "initFieldOn rnd seedName = initField seedName"
proof -
  obtain R K B where d: "toDigits RED = Inr R" "toDigits BLACK = Inr K" "toDigits BLUE = Inr B"
    and l: "length R = 60" "length K = 60" "length B = 60"
    and s: "\<forall>x \<in> set R. \<bar>x\<bar> \<le> 9" "\<forall>x \<in> set K. \<bar>x\<bar> \<le> 9" "\<forall>x \<in> set B. \<bar>x\<bar> \<le> 9"
    using constant_digits by blast
  have dOn: "toDigitsOn rnd RED = Inr (map of_int R)" "toDigitsOn rnd BLACK = Inr (map of_int K)"
    "toDigitsOn rnd BLUE = Inr (map of_int B)"
    by (simp_all add: toDigitsOn_toDigits [OF assms(1)] d)
  have p: "pulseOn rnd (map of_int R) (map of_int K) (map of_int B) = map of_int (pulseOf R K B)"
    using assms(1) l by (rule pulseOn_pulseOf)
  have "\<forall>i < 60. \<bar>R ! i\<bar> \<le> 9 \<and> \<bar>K ! i\<bar> \<le> 9 \<and> \<bar>B ! i\<bar> \<le> 9"
    using s l by (simp add: all_set_conv_all_nth)
  then have r: "ringOn rnd (map of_int R) (map of_int K) (map of_int B) = map of_int (ringOf R K B)"
    using assms(1) l by (intro ringOn_ringOf)
  have "length (interleave3 RED BLACK BLUE @ seedName) * 7 \<le> 2000000000000000"
    using assms(2) by (simp add: seedStr_length)
  then have h: "base10ToHexOn rnd (interleave3 RED BLACK BLUE @ seedName)
               = base10ToHex (interleave3 RED BLACK BLUE @ seedName)"
    using assms(1) by (intro base10ToHexOn_exact)
  show ?thesis
    by (simp only: initFieldOn_def initField_def dOn d sum.case p r Let_def h map_num_trunc_of_int)
qed

lemma prng_keeps:
  "pulse (snd (prng f)) = pulse f" "ring (snd (prng f)) = ring f"
  "seedBI (snd (prng f)) = seedBI f"
  by (simp_all add: prng_def Let_def)

lemma hash_keeps: "snd (hash f msg) = f"
  by (simp add: hash_def)

lemma afterCalls_keeps:
  "pulse (afterCalls cs f) = pulse f \<and> ring (afterCalls cs f) = ring f
   \<and> seedBI (afterCalls cs f) = seedBI f"
proof (induction cs arbitrary: f)
  case Nil
  then show ?case by (simp add: afterCalls_def)
next
  case (Cons c cs)
  have k: "pulse (afterCall f c) = pulse f \<and> ring (afterCall f c) = ring f
           \<and> seedBI (afterCall f c) = seedBI f"
    by (cases c) (simp_all add: prng_keeps hash_keeps)
  have "afterCalls (c # cs) f = afterCalls cs (afterCall f c)" by (simp add: afterCalls_def)
  then show ?case using Cons.IH [of "afterCall f c"] k by simp
qed

lemma rounding_halves: "rounding (\<lambda>x. of_int \<lfloor>2 * x\<rfloor> / 2)"
proof -
  have "(of_int \<lfloor>2 * x\<rfloor> :: real) / 2 \<le> of_int \<lfloor>2 * y\<rfloor> / 2" if "x \<le> y" for x y :: real
  proof -
    have "\<lfloor>2 * x\<rfloor> \<le> \<lfloor>2 * y\<rfloor>" using that by (intro floor_mono) simp
    then show ?thesis by simp
  qed
  then show ?thesis by (simp add: rounding_def)
qed

text \<open>
  Claim C1. Take two platforms, with roundings \<open>rnd1\<close> and \<open>rnd2\<close> of the double
  arithmetic, and a name (of at most \<open>2 ^ 48\<close> code units, beyond what an engine holds).
  On each, \<open>initField\<close> builds a Field. After any calls of \<open>prng\<close> and \<open>hash\<close> on the
  one and any other such calls on the other, the two have equal pulse arrays, equal ring
  arrays and, for every message, equal \<open>hash(msg)\<close>, which is the bigint fold over the
  seed integer: no rounding of a number enters it. A call of \<open>hash\<close> leaves the Field,
  and with it the words \<open>s0\<close> and \<open>s1\<close> of the generator, as they were, so that the
  next draw of \<open>prng\<close> is what it would have been without the call.
\<close>

theorem field_determinism:
  assumes "rounding rnd1" and "rounding rnd2" and "length name \<le> 2 ^ 48"
  shows "\<exists>f1 f2. initFieldOn rnd1 name = Inr f1 \<and> initFieldOn rnd2 name = Inr f2
     \<and> (\<forall>cs1 cs2 msg.
           pulse (afterCalls cs1 f1) = pulse (afterCalls cs2 f2)
         \<and> ring (afterCalls cs1 f1) = ring (afterCalls cs2 f2)
         \<and> fst (hash (afterCalls cs1 f1) msg) = fst (hash (afterCalls cs2 f2) msg)
         \<and> fst (hash (afterCalls cs1 f1) msg) = hash_loop (seedBI f1) msg 0
         \<and> snd (hash (afterCalls cs1 f1) msg) = afterCalls cs1 f1
         \<and> s0 (snd (hash (afterCalls cs1 f1) msg)) = s0 (afterCalls cs1 f1)
         \<and> s1 (snd (hash (afterCalls cs1 f1) msg)) = s1 (afterCalls cs1 f1)
         \<and> fst (prng (snd (hash (afterCalls cs1 f1) msg))) = fst (prng (afterCalls cs1 f1)))"
proof -
  obtain f where f: "initField name = Inr f" using initField_Inr [of name] by blast
  have 1: "initFieldOn rnd1 name = Inr f"
    using initFieldOn_initField [OF assms(1, 3)] f by simp
  have 2: "initFieldOn rnd2 name = Inr f"
    using initFieldOn_initField [OF assms(2, 3)] f by simp
  have "\<forall>cs1 cs2 msg.
           pulse (afterCalls cs1 f) = pulse (afterCalls cs2 f)
         \<and> ring (afterCalls cs1 f) = ring (afterCalls cs2 f)
         \<and> fst (hash (afterCalls cs1 f) msg) = fst (hash (afterCalls cs2 f) msg)
         \<and> fst (hash (afterCalls cs1 f) msg) = hash_loop (seedBI f) msg 0
         \<and> snd (hash (afterCalls cs1 f) msg) = afterCalls cs1 f
         \<and> s0 (snd (hash (afterCalls cs1 f) msg)) = s0 (afterCalls cs1 f)
         \<and> s1 (snd (hash (afterCalls cs1 f) msg)) = s1 (afterCalls cs1 f)
         \<and> fst (prng (snd (hash (afterCalls cs1 f) msg))) = fst (prng (afterCalls cs1 f))"
    by (simp add: afterCalls_keeps hash_keeps) (simp add: hash_def afterCalls_keeps)
  with 1 2 show ?thesis by blast
qed

theorem field_determinism_witness:
  "rounding (\<lambda>x. x) \<and> rounding (\<lambda>x. of_int \<lfloor>2 * x\<rfloor> / 2)
   \<and> length (lit ''AURALIA'') \<le> 2 ^ 48
   \<and> (\<exists>f1 f2. initFieldOn (\<lambda>x. x) (lit ''AURALIA'') = Inr f1
        \<and> initFieldOn (\<lambda>x. of_int \<lfloor>2 * x\<rfloor> / 2) (lit ''AURALIA'') = Inr f2
        \<and> pulse (afterCalls [CallPrng, CallHash (lit ''a''), CallPrng] f1) = pulse (afterCalls [] f2)
        \<and> ring (afterCalls [CallPrng, CallHash (lit ''a''), CallPrng] f1) = ring (afterCalls [] f2)
        \<and> fst (hash (afterCalls [CallPrng, CallHash (lit ''a''), CallPrng] f1) (lit ''AURALIA''))
            = fst (hash (afterCalls [] f2) (lit ''AURALIA''))
        \<and> snd (hash (afterCalls [CallPrng, CallHash (lit ''a''), CallPrng] f1) (lit ''AURALIA''))
            = afterCalls [CallPrng, CallHash (lit ''a''), CallPrng] f1)"
proof -
  have l: "length (lit ''AURALIA'') \<le> 2 ^ 48" by (simp add: lit_def)
  from field_determinism [OF rounding_id rounding_halves l]
  obtain f1 f2 where "initFieldOn (\<lambda>x. x) (lit ''AURALIA'') = Inr f1"
    and "initFieldOn (\<lambda>x. of_int \<lfloor>2 * x\<rfloor> / 2) (lit ''AURALIA'') = Inr f2"
    and "\<forall>cs1 cs2 msg.
           pulse (afterCalls cs1 f1) = pulse (afterCalls cs2 f2)
         \<and> ring (afterCalls cs1 f1) = ring (afterCalls cs2 f2)
         \<and> fst (hash (afterCalls cs1 f1) msg) = fst (hash (afterCalls cs2 f2) msg)
         \<and> fst (hash (afterCalls cs1 f1) msg) = hash_loop (seedBI f1) msg 0
         \<and> snd (hash (afterCalls cs1 f1) msg) = afterCalls cs1 f1
         \<and> s0 (snd (hash (afterCalls cs1 f1) msg)) = s0 (afterCalls cs1 f1)
         \<and> s1 (snd (hash (afterCalls cs1 f1) msg)) = s1 (afterCalls cs1 f1)
         \<and> fst (prng (snd (hash (afterCalls cs1 f1) msg))) = fst (prng (afterCalls cs1 f1))"
    by blast
  then show ?thesis using rounding_id rounding_halves l by blast
qed

subsection \<open>Genome bounds\<close>

lemma weighted_sum_nonneg:
  assumes rnd: "rounding rnd"
    and "0 \<le> a" "0 \<le> b" "0 \<le> c" "0 \<le> ca" "0 \<le> cb" "0 \<le> cc"
  shows "0 \<le> rnd (rnd (rnd (a * rnd ca) + rnd (b * rnd cb)) + rnd (c * rnd cc))"
proof -
  note nn = rounding_nonneg [OF rnd]
  have 1: "0 \<le> rnd (a * rnd ca)" using assms by (simp add: nn)
  have 2: "0 \<le> rnd (b * rnd cb)" using assms by (simp add: nn)
  have 3: "0 \<le> rnd (c * rnd cc)" using assms by (simp add: nn)
  have "0 \<le> rnd (rnd (a * rnd ca) + rnd (b * rnd cb))" using 1 2 by (simp add: nn)
  then show ?thesis using 3 by (simp add: nn)
qed

lemma clamped_fmod_range:
  assumes "0 \<le> a"
  shows "0 \<le> min 100 (num_fmod a 100)" and "min 100 (num_fmod a 100) \<le> 100"
  using num_fmod_range [OF assms] by simp_all

lemma computeGenome_range:
  assumes rnd: "rounding rnd"
    and f: "initField seedName = Inr field"
    and e: "0 \<le> GuardianStats.energy v" "GuardianStats.energy v \<le> 100"
    and c: "0 \<le> GuardianStats.curiosity v" "GuardianStats.curiosity v \<le> 100"
    and b: "0 \<le> bond v" "bond v \<le> 100"
    and h: "0 \<le> health v" "health v \<le> 100"
  shows "0 \<le> red60 (computeGenome rnd field v) \<and> red60 (computeGenome rnd field v) \<le> 100
       \<and> 0 \<le> blue60 (computeGenome rnd field v) \<and> blue60 (computeGenome rnd field v) \<le> 100
       \<and> 0 \<le> black60 (computeGenome rnd field v) \<and> black60 (computeGenome rnd field v) \<le> 100"
proof -
  note nn = rounding_nonneg [OF rnd]
  note s = initField_sums [OF f]
  have hh: "0 \<le> rnd (100 - health v)" using h by (simp add: nn)
  have ps: "0 \<le> rnd (69 + 79)" by (simp add: nn)
  have r: "0 \<le> rnd (rnd (rnd (69 * rnd 1.2) + rnd (GuardianStats.energy v * rnd 0.7))
                      + rnd (rnd (100 - health v) * rnd 0.3))"
    using e(1) hh by (intro weighted_sum_nonneg [OF rnd]) simp_all
  have bl: "0 \<le> rnd (rnd (rnd (79 * rnd 1.1) + rnd (GuardianStats.curiosity v * rnd 0.6))
                      + rnd (bond v * rnd 0.5))"
    using c(1) b(1) by (intro weighted_sum_nonneg [OF rnd]) simp_all
  have k: "0 \<le> rnd (rnd (rnd (rnd (69 + 79) * rnd 0.8) + rnd (GuardianStats.energy v * rnd 0.4))
                      + rnd (bond v * rnd 0.6))"
    using e(1) b(1) ps by (intro weighted_sum_nonneg [OF rnd]) simp_all
  show ?thesis
    using clamped_fmod_range [OF r] clamped_fmod_range [OF bl] clamped_fmod_range [OF k]
    by (simp add: computeGenome_def s Let_def)
qed

text \<open>
  Claim C4. For every Field that \<open>initField\<close> builds and all vitals energy, curiosity,
  bond and health in [0,100], the genome scalars red60, blue60 and black60 that
  \<open>computeGenome\<close> derives lie in [0,100], under every rounding of the arithmetic.
\<close>

theorem genome_bounds:
  assumes "rounding rnd"
    and "initField seedName = Inr field"
    and "0 \<le> GuardianStats.energy v \<and> GuardianStats.energy v \<le> 100"
    and "0 \<le> GuardianStats.curiosity v \<and> GuardianStats.curiosity v \<le> 100"
    and "0 \<le> bond v \<and> bond v \<le> 100"
    and "0 \<le> health v \<and> health v \<le> 100"
  shows "0 \<le> red60 (computeGenome rnd field v) \<and> red60 (computeGenome rnd field v) \<le> 100
       \<and> 0 \<le> blue60 (computeGenome rnd field v) \<and> blue60 (computeGenome rnd field v) \<le> 100
       \<and> 0 \<le> black60 (computeGenome rnd field v) \<and> black60 (computeGenome rnd field v) \<le> 100"
  using assms by (intro computeGenome_range [of rnd seedName]) simp_all

theorem genome_bounds_witness:
  "\<exists>field. rounding (\<lambda>x. x) \<and> initField (lit ''AURALIA'') = Inr field
     \<and> 0 \<le> red60 (computeGenome (\<lambda>x. x) field
                \<lparr> GuardianStats.energy = 50, curiosity = 100, bond = 0, health = 80 \<rparr>)
     \<and> red60 (computeGenome (\<lambda>x. x) field
                \<lparr> GuardianStats.energy = 50, curiosity = 100, bond = 0, health = 80 \<rparr>) \<le> 100
     \<and> 0 \<le> blue60 (computeGenome (\<lambda>x. x) field
                \<lparr> GuardianStats.energy = 50, curiosity = 100, bond = 0, health = 80 \<rparr>)
     \<and> blue60 (computeGenome (\<lambda>x. x) field
                \<lparr> GuardianStats.energy = 50, curiosity = 100, bond = 0, health = 80 \<rparr>) \<le> 100
     \<and> 0 \<le> black60 (computeGenome (\<lambda>x. x) field
                \<lparr> GuardianStats.energy = 50, curiosity = 100, bond = 0, health = 80 \<rparr>)
     \<and> black60 (computeGenome (\<lambda>x. x) field
                \<lparr> GuardianStats.energy = 50, curiosity = 100, bond = 0, health = 80 \<rparr>) \<le> 100"
proof -
  obtain field where f: "initField (lit ''AURALIA'') = Inr field"
    using initField_Inr [of "lit ''AURALIA''"] by blast
  let ?v = "\<lparr> GuardianStats.energy = 50, curiosity = 100, bond = 0, health = 80 \<rparr>"
  have "0 \<le> GuardianStats.energy ?v \<and> GuardianStats.energy ?v \<le> 100"
    and "0 \<le> GuardianStats.curiosity ?v \<and> GuardianStats.curiosity ?v \<le> 100"
    and "0 \<le> bond ?v \<and> bond ?v \<le> 100"
    and "0 \<le> health ?v \<and> health ?v \<le> 100"
    by simp_all
  from genome_bounds [OF rounding_id f this] rounding_id f
  show ?thesis by blast
qed

subsection \<open>Evolution and breeding\<close>

lemma scenario_threshold:
  assumes rnd: "rounding rnd"
  shows "40 < rnd (90 * rnd 0.8)"
proof -
  have "rnd (1 / 2) = 1 / 2" using rounding_half [OF rnd, of 1] by simp
  moreover have "rnd (1 / 2) \<le> rnd 0.8" by (rule rounding_mono [OF rnd]) simp
  ultimately have "45 \<le> 90 * rnd 0.8" by simp
  then have "rnd 45 \<le> rnd (90 * rnd 0.8)" by (rule rounding_mono [OF rnd])
  moreover have "rnd 45 = 45" using rounding_int [OF rnd, of 45] by simp
  ultimately show ?thesis by simp
qed

lemma scenario_variance:
  assumes rnd: "rounding rnd"
  shows "30 < \<bar>rnd (90 - rnd (rnd (rnd (90 + 40) + 30) / 3))\<bar>"
proof -
  have i: "rnd 130 = 130" "rnd 54 = 54" "rnd 36 = 36"
    using rounding_int [OF rnd, of 130] rounding_int [OF rnd, of 54] rounding_int [OF rnd, of 36]
    by simp_all
  have "rnd (rnd 130 + 30) / 3 \<le> rnd 160 / 3" by (simp add: i)
  moreover have "rnd 160 = 160" using rounding_int [OF rnd, of 160] by simp
  ultimately have "rnd (rnd 130 + 30) / 3 \<le> 54" by simp
  then have "rnd (rnd (rnd 130 + 30) / 3) \<le> rnd 54" by (rule rounding_mono [OF rnd])
  then have "36 \<le> 90 - rnd (rnd (rnd 130 + 30) / 3)" by (simp add: i)
  then have "rnd 36 \<le> rnd (90 - rnd (rnd (rnd 130 + 30) / 3))" by (rule rounding_mono [OF rnd])
  then show ?thesis by (simp add: i)
qed

lemma scenario_evolution:
  assumes rnd: "rounding rnd"
  shows "primaryAspect (calculateEvolution rnd \<lparr> red60 = 90, blue60 = 40, black60 = 30 \<rparr>) = sun
       \<and> secondaryAspect (calculateEvolution rnd \<lparr> red60 = 90, blue60 = 40, black60 = 30 \<rparr>) = None
       \<and> trait (calculateEvolution rnd \<lparr> red60 = 90, blue60 = 40, black60 = 30 \<rparr>) = chaotic"
proof -
  let ?g = "\<lparr> red60 = 90, blue60 = 40, black60 = 30 \<rparr>"
  have p: "calculateTrinityAspect ?g = sun" by (simp add: calculateTrinityAspect_def)
  have s: "calculateSecondaryAspect rnd ?g sun = None"
    using scenario_threshold [OF rnd] by (simp add: calculateSecondaryAspect_def)
  have "30 < max (max \<bar>rnd (90 - rnd (rnd (rnd (90 + 40) + 30) / 3))\<bar>
                      \<bar>rnd (40 - rnd (rnd (rnd (90 + 40) + 30) / 3))\<bar>)
                 \<bar>rnd (30 - rnd (rnd (rnd (90 + 40) + 30) / 3))\<bar>"
    using scenario_variance [OF rnd] by (simp add: less_max_iff_disj)
  then have t: "calculateEvolutionTrait rnd ?g sun None = chaotic"
    by (simp add: calculateEvolutionTrait_def Let_def)
  show ?thesis by (simp add: calculateEvolution_def Let_def p s t)
qed

text \<open>
  Claim C7. For the genome red60 = 90, blue60 = 40, black60 = 30, \<open>calculateEvolution\<close>
  returns the primary aspect sun, no secondary aspect (40 is below 0.8 times 90) and the
  trait chaotic (the largest deviation from the mean exceeds 30), under every rounding
  of the arithmetic.
\<close>

theorem trinity_scenario:
  assumes "rounding rnd"
  shows "primaryAspect (calculateEvolution rnd \<lparr> red60 = 90, blue60 = 40, black60 = 30 \<rparr>) = sun
       \<and> secondaryAspect (calculateEvolution rnd \<lparr> red60 = 90, blue60 = 40, black60 = 30 \<rparr>) = None
       \<and> trait (calculateEvolution rnd \<lparr> red60 = 90, blue60 = 40, black60 = 30 \<rparr>) = chaotic"
  using assms by (rule scenario_evolution)

theorem trinity_scenario_witness:
  "rounding (\<lambda>x. x)
   \<and> primaryAspect (calculateEvolution (\<lambda>x. x) \<lparr> red60 = 90, blue60 = 40, black60 = 30 \<rparr>) = sun
   \<and> secondaryAspect (calculateEvolution (\<lambda>x. x) \<lparr> red60 = 90, blue60 = 40, black60 = 30 \<rparr>) = None
   \<and> trait (calculateEvolution (\<lambda>x. x) \<lparr> red60 = 90, blue60 = 40, black60 = 30 \<rparr>) = chaotic"
  using trinity_scenario [OF rounding_id] rounding_id by simp

lemma mutate_range:
  "0 \<le> fst (mutate rnd randomFn val s) \<and> fst (mutate rnd randomFn val s) \<le> 100"
proof -
  obtain r s' where d: "randomFn s = (r, s')" by (cases "randomFn s")
  have "fst (mutate rnd randomFn val s) = max 0 (min 100 (rnd (val + rnd (rnd (r - rnd 0.5) * 30))))"
    by (simp add: mutate_def d)
  then show ?thesis by simp
qed

lemma boost_range:
  assumes "rounding rnd" and "0 \<le> c"
  shows "0 \<le> min 100 (rnd (c + 10))" and "min 100 (rnd (c + 10)) \<le> 100"
proof -
  have "0 \<le> rnd (c + 10)" using rounding_nonneg [OF assms(1), of "c + 10"] assms(2) by simp
  then show "0 \<le> min 100 (rnd (c + 10))" by simp
  show "min 100 (rnd (c + 10)) \<le> 100" by simp
qed

lemma breed_range:
  assumes rnd: "rounding rnd"
  shows "0 \<le> red60 (fst (breedGenomes rnd parent1 parent2 randomFn s))
       \<and> red60 (fst (breedGenomes rnd parent1 parent2 randomFn s)) \<le> 100
       \<and> 0 \<le> blue60 (fst (breedGenomes rnd parent1 parent2 randomFn s))
       \<and> blue60 (fst (breedGenomes rnd parent1 parent2 randomFn s)) \<le> 100
       \<and> 0 \<le> black60 (fst (breedGenomes rnd parent1 parent2 randomFn s))
       \<and> black60 (fst (breedGenomes rnd parent1 parent2 randomFn s)) \<le> 100"
proof -
  define iR where "iR = rnd (rnd (red60 parent1 + red60 parent2) / 2)"
  define iB where "iB = rnd (rnd (blue60 parent1 + blue60 parent2) / 2)"
  define iK where "iK = rnd (rnd (black60 parent1 + black60 parent2) / 2)"
  obtain r s1 where m1: "mutate rnd randomFn iR s = (r, s1)" by (cases "mutate rnd randomFn iR s")
  obtain b s2 where m2: "mutate rnd randomFn iB s1 = (b, s2)" by (cases "mutate rnd randomFn iB s1")
  obtain k s3 where m3: "mutate rnd randomFn iK s2 = (k, s3)" by (cases "mutate rnd randomFn iK s2")
  obtain bo s4 where m4: "randomFn s3 = (bo, s4)" by (cases "randomFn s3")
  have r: "0 \<le> r" "r \<le> 100" using mutate_range [of rnd randomFn iR s] m1 by simp_all
  have b: "0 \<le> b" "b \<le> 100" using mutate_range [of rnd randomFn iB s1] m2 by simp_all
  have k: "0 \<le> k" "k \<le> 100" using mutate_range [of rnd randomFn iK s2] m3 by simp_all
  define r' where "r' = min 100 (rnd (r + 10))"
  define b' where "b' = min 100 (rnd (b + 10))"
  define k' where "k' = min 100 (rnd (k + 10))"
  have r': "0 \<le> r'" "r' \<le> 100" unfolding r'_def using boost_range [OF rnd r(1)] by simp_all
  have b': "0 \<le> b'" "b' \<le> 100" unfolding b'_def using boost_range [OF rnd b(1)] by simp_all
  have k': "0 \<le> k'" "k' \<le> 100" unfolding k'_def using boost_range [OF rnd k(1)] by simp_all
  define T where "T =
     (if bo < rnd 0.05 then
        if max (max (red60 parent1) (blue60 parent1)) (black60 parent1) = red60 parent1
           \<or> max (max (red60 parent2) (blue60 parent2)) (black60 parent2) = red60 parent2
        then (r', b, k)
        else if max (max (red60 parent1) (blue60 parent1)) (black60 parent1) = blue60 parent1
           \<or> max (max (red60 parent2) (blue60 parent2)) (black60 parent2) = blue60 parent2
        then (r, b', k)
        else (r, b, k')
      else (r, b, k))"
  obtain R B K where T: "T = (R, B, K)" by (cases T)
  have g: "fst (breedGenomes rnd parent1 parent2 randomFn s)
      = \<lparr> red60 = math_round R, blue60 = math_round B, black60 = math_round K \<rparr>"
    unfolding breedGenomes_def Let_def iR_def [symmetric] iB_def [symmetric] iK_def [symmetric]
    using T unfolding T_def r'_def b'_def k'_def
    by (simp add: m1 m2 m3 m4)
  have R: "R = r \<or> R = r'" and B: "B = b \<or> B = b'" and K: "K = k \<or> K = k'"
    using T unfolding T_def by (auto split: if_splits)
  have "0 \<le> R" "R \<le> 100" "0 \<le> B" "B \<le> 100" "0 \<le> K" "K \<le> 100"
    using R B K r b k r' b' k' by auto
  then show ?thesis
    using g math_round_range by simp
qed

text \<open>
  Claim C9. For parents with every axis in [0,100] and a random function whose draws
  lie in [0,1), every axis of the genome that \<open>breedGenomes\<close> returns lies in [0,100],
  whatever the draws (the extreme mutation and the rare boost included).
\<close>

theorem breedGenomes_bounds:
  assumes "rounding rnd"
    and "0 \<le> red60 parent1 \<and> red60 parent1 \<le> 100 \<and> 0 \<le> blue60 parent1 \<and> blue60 parent1 \<le> 100
         \<and> 0 \<le> black60 parent1 \<and> black60 parent1 \<le> 100"
    and "0 \<le> red60 parent2 \<and> red60 parent2 \<le> 100 \<and> 0 \<le> blue60 parent2 \<and> blue60 parent2 \<le> 100
         \<and> 0 \<le> black60 parent2 \<and> black60 parent2 \<le> 100"
    and "\<forall>s. 0 \<le> fst (randomFn s) \<and> fst (randomFn s) < 1"
  shows "0 \<le> red60 (fst (breedGenomes rnd parent1 parent2 randomFn s))
       \<and> red60 (fst (breedGenomes rnd parent1 parent2 randomFn s)) \<le> 100
       \<and> 0 \<le> blue60 (fst (breedGenomes rnd parent1 parent2 randomFn s))
       \<and> blue60 (fst (breedGenomes rnd parent1 parent2 randomFn s)) \<le> 100
       \<and> 0 \<le> black60 (fst (breedGenomes rnd parent1 parent2 randomFn s))
       \<and> black60 (fst (breedGenomes rnd parent1 parent2 randomFn s)) \<le> 100"
  using assms(1) by (rule breed_range)

theorem breedGenomes_bounds_witness:
  "rounding (\<lambda>x. x)
   \<and> (0 \<le> red60 \<lparr> red60 = 100, blue60 = 0, black60 = 100 \<rparr>
      \<and> red60 \<lparr> red60 = 100, blue60 = 0, black60 = 100 \<rparr> \<le> 100
      \<and> 0 \<le> blue60 \<lparr> red60 = 100, blue60 = 0, black60 = 100 \<rparr>
      \<and> blue60 \<lparr> red60 = 100, blue60 = 0, black60 = 100 \<rparr> \<le> 100
      \<and> 0 \<le> black60 \<lparr> red60 = 100, blue60 = 0, black60 = 100 \<rparr>
      \<and> black60 \<lparr> red60 = 100, blue60 = 0, black60 = 100 \<rparr> \<le> 100)
   \<and> (\<forall>s::nat. 0 \<le> fst (if s < 3 then 0 else 1 / 100 :: real, Suc s)
               \<and> fst (if s < 3 then 0 else 1 / 100 :: real, Suc s) < 1)
   \<and> 0 \<le> red60 (fst (breedGenomes (\<lambda>x. x) \<lparr> red60 = 100, blue60 = 0, black60 = 100 \<rparr>
                 \<lparr> red60 = 100, blue60 = 0, black60 = 100 \<rparr>
                 (\<lambda>s. (if s < 3 then 0 else 1 / 100, Suc s)) (0 :: nat)))
   \<and> red60 (fst (breedGenomes (\<lambda>x. x) \<lparr> red60 = 100, blue60 = 0, black60 = 100 \<rparr>
                 \<lparr> red60 = 100, blue60 = 0, black60 = 100 \<rparr>
                 (\<lambda>s. (if s < 3 then 0 else 1 / 100, Suc s)) (0 :: nat))) \<le> 100
   \<and> 0 \<le> blue60 (fst (breedGenomes (\<lambda>x. x) \<lparr> red60 = 100, blue60 = 0, black60 = 100 \<rparr>
                 \<lparr> red60 = 100, blue60 = 0, black60 = 100 \<rparr>
                 (\<lambda>s. (if s < 3 then 0 else 1 / 100, Suc s)) (0 :: nat)))
   \<and> blue60 (fst (breedGenomes (\<lambda>x. x) \<lparr> red60 = 100, blue60 = 0, black60 = 100 \<rparr>
                 \<lparr> red60 = 100, blue60 = 0, black60 = 100 \<rparr>
                 (\<lambda>s. (if s < 3 then 0 else 1 / 100, Suc s)) (0 :: nat))) \<le> 100
   \<and> 0 \<le> black60 (fst (breedGenomes (\<lambda>x. x) \<lparr> red60 = 100, blue60 = 0, black60 = 100 \<rparr>
                 \<lparr> red60 = 100, blue60 = 0, black60 = 100 \<rparr>
                 (\<lambda>s. (if s < 3 then 0 else 1 / 100, Suc s)) (0 :: nat)))
   \<and> black60 (fst (breedGenomes (\<lambda>x. x) \<lparr> red60 = 100, blue60 = 0, black60 = 100 \<rparr>
                 \<lparr> red60 = 100, blue60 = 0, black60 = 100 \<rparr>
                 (\<lambda>s. (if s < 3 then 0 else 1 / 100, Suc s)) (0 :: nat))) \<le> 100"
proof -
  let ?p = "\<lparr> red60 = 100, blue60 = 0, black60 = 100 \<rparr>"
  let ?rf = "\<lambda>s::nat. (if s < 3 then 0 else 1 / 100 :: real, Suc s)"
  have p: "0 \<le> red60 ?p \<and> red60 ?p \<le> 100 \<and> 0 \<le> blue60 ?p \<and> blue60 ?p \<le> 100
           \<and> 0 \<le> black60 ?p \<and> black60 ?p \<le> 100"
    by simp
  have r: "\<forall>s. 0 \<le> fst (?rf s) \<and> fst (?rf s) < 1" by simp
  from breedGenomes_bounds [OF rounding_id p p r, of 0] rounding_id p r
  show ?thesis by blast
qed

subsection \<open>Emotional response\<close>

text \<open>
  Claim C8. \<open>calculateEmotionalResponse\<close> is a first-match cascade: whatever the
  traits, and whatever the other vitals, hunger above 80 gives yearning; otherwise
  hygiene below 30 gives overwhelmed, whatever mood and energy are; and the vitals
  mood 90, energy 80, hunger 20, hygiene 90 give ecstatic for every traits input.
\<close>

theorem emotion_cascade:
  "(hunger v > 80 \<longrightarrow> calculateEmotionalResponse v t = yearning)
   \<and> (\<not> hunger v > 80 \<and> hygiene v < 30 \<longrightarrow> calculateEmotionalResponse v t = overwhelmed)
   \<and> calculateEmotionalResponse \<lparr> mood = 90, energy = 80, hunger = 20, hygiene = 90 \<rparr> t
       = ecstatic"
  by (simp add: calculateEmotionalResponse_def Let_def)

theorem emotion_cascade_witness:
  "\<forall>t. hunger \<lparr> mood = 90, energy = 80, hunger = 81, hygiene = 10 \<rparr> > 80
     \<and> calculateEmotionalResponse \<lparr> mood = 90, energy = 80, hunger = 81, hygiene = 10 \<rparr> t
         = yearning
     \<and> \<not> hunger \<lparr> mood = 90, energy = 80, hunger = 80, hygiene = 29 \<rparr> > 80
     \<and> hygiene \<lparr> mood = 90, energy = 80, hunger = 80, hygiene = 29 \<rparr> < 30
     \<and> calculateEmotionalResponse \<lparr> mood = 90, energy = 80, hunger = 80, hygiene = 29 \<rparr> t
         = overwhelmed"
proof
  fix t
  have a: "hunger \<lparr> mood = 90, energy = 80, hunger = 81, hygiene = 10 \<rparr> > 80" by simp
  have b: "\<not> hunger \<lparr> mood = 90, energy = 80, hunger = 80, hygiene = 29 \<rparr> > 80
           \<and> hygiene \<lparr> mood = 90, energy = 80, hunger = 80, hygiene = 29 \<rparr> < 30" by simp
  from a b
    emotion_cascade [of "\<lparr> mood = 90, energy = 80, hunger = 81, hygiene = 10 \<rparr>" t]
    emotion_cascade [of "\<lparr> mood = 90, energy = 80, hunger = 80, hygiene = 29 \<rparr>" t]
  show "hunger \<lparr> mood = 90, energy = 80, hunger = 81, hygiene = 10 \<rparr> > 80
     \<and> calculateEmotionalResponse \<lparr> mood = 90, energy = 80, hunger = 81, hygiene = 10 \<rparr> t
         = yearning
     \<and> \<not> hunger \<lparr> mood = 90, energy = 80, hunger = 80, hygiene = 29 \<rparr> > 80
     \<and> hygiene \<lparr> mood = 90, energy = 80, hunger = 80, hygiene = 29 \<rparr> < 30
     \<and> calculateEmotionalResponse \<lparr> mood = 90, energy = 80, hunger = 80, hygiene = 29 \<rparr> t
         = overwhelmed"
    by blast
qed

subsection \<open>The behaviour state machine\<close>

lemma lastArmed_setTimeout: "lastArmed (setTimeout cb d hs) = Some cb"
  by (cases "timers hs") (simp_all add: lastArmed_def setTimeout_def)

lemma setTimeout_fields:
  "mode (setTimeout cb d hs) = mode hs" "calls (setTimeout cb d hs) = calls hs"
  "focusedSigil (setTimeout cb d hs) = focusedSigil hs" "drawn (setTimeout cb d hs) = drawn hs"
  "props (setTimeout cb d hs) = props hs"
  "timerRef (setTimeout cb d hs) = Some (nextTimer hs)"
  "timers (setTimeout cb d hs) = timers hs @ [(nextTimer hs, d, cb)]"
  "nextTimer (setTimeout cb d hs) = Suc (nextTimer hs)"
  by (simp_all add: setTimeout_def)

lemma transition_idle_modes:
  assumes "mode hs = idle"
  shows "(mode (transitionToNextMode rnd random p idle hs) = dreaming \<longleftrightarrow>
            GuardianStats.energy (stats p) < 30
            \<and> random (drawn hs) < idleToDream (probabilities (config p)))
       \<and> (mode (transitionToNextMode rnd random p idle hs) = observing \<longleftrightarrow>
            \<not> (GuardianStats.energy (stats p) < 30
               \<and> random (drawn hs) < idleToDream (probabilities (config p)))
            \<and> random (drawn hs) < idleToObserve (probabilities (config p)))
       \<and> (mode (transitionToNextMode rnd random p idle hs) = focusing \<longleftrightarrow>
            \<not> (GuardianStats.energy (stats p) < 30
               \<and> random (drawn hs) < idleToDream (probabilities (config p)))
            \<and> \<not> random (drawn hs) < idleToObserve (probabilities (config p))
            \<and> GuardianStats.curiosity (stats p) > 40
            \<and> random (drawn hs) < rnd (idleToFocus (probabilities (config p))
                                       + idleToObserve (probabilities (config p))))
       \<and> mode (transitionToNextMode rnd random p idle hs) \<noteq> playing"
  using assms
  by (simp add: transitionToNextMode_def math_random_def setTimeout_fields Let_def)

lemma transition_idle_armed:
  "lastArmed (transitionToNextMode rnd random p idle hs) =
     Some (if GuardianStats.energy (stats p) < 30
              \<and> random (drawn hs) < idleToDream (probabilities (config p)) then DreamEnd
           else if random (drawn hs) < idleToObserve (probabilities (config p)) then ObserveEnd
           else if GuardianStats.curiosity (stats p) > 40
                   \<and> random (drawn hs) < rnd (idleToFocus (probabilities (config p))
                                              + idleToObserve (probabilities (config p)))
           then FocusEnd p
           else Retransition p idle)"
  by (simp add: transitionToNextMode_def math_random_def lastArmed_setTimeout Let_def)

lemma transition_quiet:
  "calls (transitionToNextMode rnd random p m hs) = calls hs
   \<and> focusedSigil (transitionToNextMode rnd random p m hs) = focusedSigil hs"
  by (simp add: transitionToNextMode_def math_random_def setTimeout_fields Let_def)

lemma transition_not_idle:
  assumes "m \<noteq> idle"
  shows "mode (transitionToNextMode rnd random p m hs) = mode hs
       \<and> lastArmed (transitionToNextMode rnd random p m hs) = Some (Retransition p m)"
  using assms
  by (simp add: transitionToNextMode_def math_random_def setTimeout_fields lastArmed_setTimeout
      Let_def)

lemma runCallback_DreamEnd:
  "runCallback rnd random DreamEnd hs = hs\<lparr> mode := idle, calls := calls hs @ [OnDreamComplete] \<rparr>"
  by (simp add: runCallback_def)

lemma runCallback_ObserveEnd: "runCallback rnd random ObserveEnd hs = hs\<lparr> mode := idle \<rparr>"
  by (simp add: runCallback_def)

lemma runCallback_PlayEnd:
  "runCallback rnd random PlayEnd hs =
     hs\<lparr> focusedSigil := None, calls := calls hs @ [OnFocusChange None], mode := idle \<rparr>"
  by (simp add: runCallback_def)

lemma runCallback_FocusEnd:
  "mode (runCallback rnd random (FocusEnd p) hs) = playing
   \<and> lastArmed (runCallback rnd random (FocusEnd p) hs) = Some PlayEnd
   \<and> (if 0 \<le> \<lfloor>rnd (random (drawn hs) * of_nat (length (sigilPoints p)))\<rfloor>
          \<and> nat \<lfloor>rnd (random (drawn hs) * of_nat (length (sigilPoints p)))\<rfloor>
              < length (sigilPoints p)
       then focusedSigil (runCallback rnd random (FocusEnd p) hs)
              = Some (sigil_id (sigilPoints p
                   ! nat \<lfloor>rnd (random (drawn hs) * of_nat (length (sigilPoints p)))\<rfloor>))
            \<and> calls (runCallback rnd random (FocusEnd p) hs)
              = calls hs @ [OnFocusChange (Some (sigil_id (sigilPoints p
                   ! nat \<lfloor>rnd (random (drawn hs) * of_nat (length (sigilPoints p)))\<rfloor>)))]
                  @ (if onPlay p then [OnPlay] else [])
       else focusedSigil (runCallback rnd random (FocusEnd p) hs) = focusedSigil hs
            \<and> calls (runCallback rnd random (FocusEnd p) hs) = calls hs)"
  by (simp add: runCallback_def math_random_def setTimeout_fields lastArmed_setTimeout Let_def)

subsection \<open>Timers and the effect\<close>

lemma oneTimer_setTimeout:
  assumes "timers hs = []" and "nextTimer hs \<noteq> 0"
  shows "oneTimer (setTimeout cb d hs)"
  using assms by (simp add: oneTimer_def setTimeout_def)

lemma oneTimer_transition:
  assumes "timers hs = []" and "nextTimer hs \<noteq> 0"
  shows "oneTimer (transitionToNextMode rnd random p m hs)"
  using assms
  by (simp add: transitionToNextMode_def math_random_def Let_def oneTimer_setTimeout)

lemma effectCleanup_fields:
  "mode (effectCleanup hs) = mode hs" "calls (effectCleanup hs) = calls hs"
  "props (effectCleanup hs) = props hs" "focusedSigil (effectCleanup hs) = focusedSigil hs"
  "nextTimer (effectCleanup hs) = nextTimer hs"
  by (simp_all add: effectCleanup_def clearTimeout_def split: option.splits)

lemma effectCleanup_clears:
  assumes "oneTimer hs"
  shows "timers (effectCleanup hs) = []" and "nextTimer (effectCleanup hs) \<noteq> 0"
    and "mode (effectCleanup hs) = mode hs" and "calls (effectCleanup hs) = calls hs"
    and "props (effectCleanup hs) = props hs"
  using assms
  by (auto simp: oneTimer_def effectCleanup_def clearTimeout_def split: option.splits)

lemma oneTimer_rerunEffect:
  assumes "oneTimer hs"
  shows "oneTimer (rerunEffect rnd random hs)"
proof -
  note c = effectCleanup_clears [OF assms]
  show ?thesis
  proof (cases "mode hs = idle")
    case True
    then show ?thesis
      using c by (simp add: rerunEffect_def effectBody_def oneTimer_transition)
  next
    case False
    then show ?thesis
      using c by (simp add: rerunEffect_def effectBody_def oneTimer_def)
  qed
qed

lemma rerunEffect_not_idle:
  assumes "oneTimer hs" and "mode hs \<noteq> idle"
  shows "timers (rerunEffect rnd random hs) = []" and "mode (rerunEffect rnd random hs) = mode hs"
    and "calls (rerunEffect rnd random hs) = calls hs"
  using assms effectCleanup_clears [OF assms(1)]
  by (simp_all add: rerunEffect_def effectBody_def)

lemma rerunEffect_mode:
  "mode (rerunEffect rnd random hs) \<noteq> mode hs \<Longrightarrow> mode (rerunEffect rnd random hs) \<noteq> idle"
  by (auto simp: rerunEffect_def effectBody_def effectCleanup_fields)

text \<open>
  Once the renders have settled, at most one timer is pending; and if the mode has
  changed to one that is not idle, none is.
\<close>

lemma afterUpdate_settled:
  assumes "oneTimer hs"
  shows "oneTimer (afterUpdate rnd random m hs)"
    and "mode (afterUpdate rnd random m hs) \<noteq> idle \<Longrightarrow> mode hs \<noteq> m \<or> m = idle
         \<Longrightarrow> mode (afterUpdate rnd random m hs) \<noteq> m
         \<Longrightarrow> timers (afterUpdate rnd random m hs) = []"
proof -
  let ?hs1 = "rerunEffect rnd random hs"
  have o1: "oneTimer ?hs1" using assms by (rule oneTimer_rerunEffect)
  have o2: "oneTimer (rerunEffect rnd random ?hs1)" using o1 by (rule oneTimer_rerunEffect)
  show "oneTimer (afterUpdate rnd random m hs)"
    using assms o1 o2 by (simp add: afterUpdate_def Let_def)
  assume n: "mode (afterUpdate rnd random m hs) \<noteq> idle"
    and "mode hs \<noteq> m \<or> m = idle"
    and c: "mode (afterUpdate rnd random m hs) \<noteq> m"
  show "timers (afterUpdate rnd random m hs) = []"
  proof (cases "mode hs = m")
    case True
    then show ?thesis using c by (simp add: afterUpdate_def)
  next
    case False
    show ?thesis
    proof (cases "mode ?hs1 = mode hs")
      case True
      then have a: "afterUpdate rnd random m hs = ?hs1"
        using False by (simp add: afterUpdate_def Let_def)
      then have "mode hs \<noteq> idle" using n True by simp
      then show ?thesis using a rerunEffect_not_idle(1) [OF assms] by simp
    next
      case changed: False
      then have a: "afterUpdate rnd random m hs = rerunEffect rnd random ?hs1"
        using False by (simp add: afterUpdate_def Let_def)
      have "mode ?hs1 \<noteq> idle" using changed by (rule rerunEffect_mode)
      then show ?thesis using a rerunEffect_not_idle(1) [OF o1] by simp
    qed
  qed
qed

lemma oneTimer_runCallback:
  assumes "timers hs = []" and "nextTimer hs \<noteq> 0"
  shows "oneTimer (runCallback rnd random cb hs)"
proof (cases cb)
  case (FocusEnd p)
  then show ?thesis
    using assms by (simp add: runCallback_def math_random_def Let_def oneTimer_setTimeout)
next
  case (Retransition p m)
  then show ?thesis
    using assms by (simp add: runCallback_def oneTimer_transition)
qed (use assms in \<open>simp_all add: runCallback_def oneTimer_def\<close>)

lemma fireTimer_no_timer: "timers hs = [] \<Longrightarrow> fireTimer rnd random h hs = hs"
  by (simp add: fireTimer_def)

lemma oneTimer_fireTimer:
  assumes "oneTimer hs"
  shows "oneTimer (fireTimer rnd random h hs)"
proof (cases "find (\<lambda>(h', d, cb). h' = h) (timers hs)")
  case None
  then show ?thesis using assms by (simp add: fireTimer_def)
next
  case (Some t)
  obtain h' d cb where t: "t = (h', d, cb)" by (cases t)
  have "timers hs = [(h, d, cb)]"
    using Some assms unfolding t oneTimer_def by (auto split: if_splits)
  then have "timers (clearTimeout h hs) = []" "nextTimer (clearTimeout h hs) \<noteq> 0"
    using assms by (simp_all add: clearTimeout_def oneTimer_def)
  then have "oneTimer (runCallback rnd random cb (clearTimeout h hs))"
    by (rule oneTimer_runCallback)
  then show ?thesis using Some by (simp add: fireTimer_def t)
qed

text \<open>
  The invariant of the mounted hook: at most one timer is pending, and none while the
  mode is not idle.
\<close>

lemma step_invariant:
  assumes o: "oneTimer hs" and n: "mode hs \<noteq> idle \<longrightarrow> timers hs = []"
  shows "oneTimer (step rnd random hs ev)"
    and "mode (step rnd random hs ev) \<noteq> idle \<longrightarrow> timers (step rnd random hs ev) = []"
    and "mode hs \<noteq> idle \<longrightarrow> mode (step rnd random hs ev) = mode hs
           \<and> calls (step rnd random hs ev) = calls hs"
proof -
  define hs' where "hs' = (case ev of TimerFires h \<Rightarrow> fireTimer rnd random h hs
                            | Render p \<Rightarrow> rerunEffect rnd random (hs\<lparr> props := p \<rparr>))"
  have s: "step rnd random hs ev = afterUpdate rnd random (mode hs) hs'"
    by (simp add: step_def hs'_def split: event.split)
  have op: "\<And>p. oneTimer (hs\<lparr> props := p \<rparr>)" using o by (simp add: oneTimer_def)
  have o': "oneTimer hs'"
    unfolding hs'_def using o op
    by (simp add: oneTimer_fireTimer oneTimer_rerunEffect split: event.split)
  show "oneTimer (step rnd random hs ev)"
    unfolding s using o' by (rule afterUpdate_settled(1))
  have stuck: "hs' = hs \<or> (mode hs' = mode hs \<and> timers hs' = [] \<and> calls hs' = calls hs)"
    if "mode hs \<noteq> idle"
  proof (cases ev)
    case (TimerFires h)
    then show ?thesis using that n by (simp add: hs'_def fireTimer_no_timer)
  next
    case (Render p)
    have "mode (hs\<lparr> props := p \<rparr>) \<noteq> idle" using that by simp
    from rerunEffect_not_idle [OF op this, of rnd random] Render
    show ?thesis by (simp add: hs'_def)
  qed
  show "mode hs \<noteq> idle \<longrightarrow> mode (step rnd random hs ev) = mode hs
           \<and> calls (step rnd random hs ev) = calls hs"
    using stuck by (auto simp: s afterUpdate_def)
  show "mode (step rnd random hs ev) \<noteq> idle \<longrightarrow> timers (step rnd random hs ev) = []"
  proof (cases "mode hs = idle")
    case True
    then show ?thesis
      unfolding s using afterUpdate_settled(2) [OF o', of rnd random "mode hs"] by auto
  next
    case False
    then show ?thesis using stuck n by (auto simp: s afterUpdate_def)
  qed
qed

lemma mount_invariant:
  "oneTimer (mount rnd random p)"
  "mode (mount rnd random p) \<noteq> idle \<longrightarrow> timers (mount rnd random p) = []"
proof -
  have o: "oneTimer (effectBody rnd random (initialState p))"
    by (simp add: effectBody_def initialState_def oneTimer_transition)
  show "oneTimer (mount rnd random p)"
    unfolding mount_def using o by (rule afterUpdate_settled(1))
  show "mode (mount rnd random p) \<noteq> idle \<longrightarrow> timers (mount rnd random p) = []"
    unfolding mount_def using afterUpdate_settled(2) [OF o, of rnd random idle] by auto
qed

lemma run_invariant:
  assumes "oneTimer hs" and "mode hs \<noteq> idle \<longrightarrow> timers hs = []"
  shows "oneTimer (run rnd random evs hs)
       \<and> (mode (run rnd random evs hs) \<noteq> idle \<longrightarrow> timers (run rnd random evs hs) = [])
       \<and> (mode hs \<noteq> idle \<longrightarrow> mode (run rnd random evs hs) = mode hs
             \<and> calls (run rnd random evs hs) = calls hs)"
  using assms
proof (induction evs arbitrary: hs)
  case Nil
  then show ?case by (simp add: run_def)
next
  case (Cons ev evs)
  note s = step_invariant [OF Cons.prems, of rnd random ev]
  have r: "run rnd random (ev # evs) hs = run rnd random evs (step rnd random hs ev)"
    by (simp add: run_def)
  from Cons.IH [OF s(1) s(2)] s(3) show ?case unfolding r by auto
qed

text \<open>
  In every execution of the mounted hook at most one timer is pending; and a mode other
  than idle, once entered, has no pending timer and is never left.
\<close>

lemma single_pending_timer:
  "length (timers (run rnd random evs (mount rnd random p))) \<le> 1"
  using run_invariant [where hs = "mount rnd random p" and rnd = rnd and random = random
      and evs = evs, OF mount_invariant]
  by (auto simp: oneTimer_def)

lemma entered_mode_is_final:
  assumes "mode (run rnd random evs (mount rnd random p)) \<noteq> idle"
  shows "timers (run rnd random evs (mount rnd random p)) = []
       \<and> mode (run rnd random (evs @ evs') (mount rnd random p))
           = mode (run rnd random evs (mount rnd random p))"
proof -
  let ?hs = "run rnd random evs (mount rnd random p)"
  note i = run_invariant [where hs = "mount rnd random p" and rnd = rnd and random = random
      and evs = evs, OF mount_invariant]
  have o: "oneTimer ?hs" and n: "mode ?hs \<noteq> idle \<longrightarrow> timers ?hs = []" using i by blast+
  have "run rnd random (evs @ evs') (mount rnd random p) = run rnd random evs' ?hs"
    by (simp add: run_def)
  then show ?thesis
    using run_invariant [where rnd = rnd and random = random and evs = evs', OF o n] assms n by simp
qed

text \<open>
  Claim C6. The claim fails on the code where it says that a timer armed on state entry
  is not cancelled before it fires, so that every mode entered returns to idle. With
  energy 20 and first draw 0.1 the effect enters dreaming and arms the timer that would
  end the dream; the mode change makes the effect run again, and its cleanup clears that
  very timer. No timer is pending any more, the mode stays dreaming under every sequence
  of timer and render events, and \<open>onDreamComplete\<close> is never called.
\<close>

theorem dreaming_timer_cancelled:
  "let p = \<lparr> sigilPoints = [\<lparr> sigil_id = 0, sigil_x = 210, sigil_y = 145, sigil_angle = 0,
                                sigil_radius = 10 \<rparr>],
             config = DEFAULT_AI_CONFIG,
             stats = \<lparr> GuardianStats.energy = 20, curiosity = 50, bond = 50, health = 50 \<rparr>,
             onPlay = True \<rparr>;
       entered = effectBody (\<lambda>x. x) (\<lambda>n. 1 / 10) (initialState p);
       hs = mount (\<lambda>x. x) (\<lambda>n. 1 / 10) p
   in mode entered = dreaming \<and> lastArmed entered = Some DreamEnd
      \<and> hs = effectCleanup entered
      \<and> mode hs = dreaming \<and> timers hs = []
      \<and> (\<forall>evs. mode (run (\<lambda>x. x) (\<lambda>n. 1 / 10) evs hs) = dreaming
               \<and> timers (run (\<lambda>x. x) (\<lambda>n. 1 / 10) evs hs) = []
               \<and> calls (run (\<lambda>x. x) (\<lambda>n. 1 / 10) evs hs) = [])"
proof -
  define p where "p = \<lparr> sigilPoints = [\<lparr> sigil_id = 0, sigil_x = 210, sigil_y = 145, sigil_angle = 0,
                                sigil_radius = 10 \<rparr>],
             config = DEFAULT_AI_CONFIG,
             stats = \<lparr> GuardianStats.energy = 20, curiosity = 50, bond = 50, health = 50 \<rparr>,
             onPlay = True \<rparr>"
  define entered where "entered = effectBody (\<lambda>x. x) (\<lambda>n. 1 / 10) (initialState p)"
  define hs where "hs = mount (\<lambda>x. x) (\<lambda>n. 1 / 10) p"
  have pv: "GuardianStats.energy (stats p) = 20"
    "idleToDream (probabilities (config p)) = 15 / 100"
    by (simp_all add: p_def DEFAULT_AI_CONFIG_def)
  have i: "mode (initialState p) = idle" "calls (initialState p) = []"
    "drawn (initialState p) = 0" "props (initialState p) = p"
    by (simp_all add: initialState_def)
  have e: "entered = transitionToNextMode (\<lambda>x. x) (\<lambda>n. 1 / 10) p idle (initialState p)"
    by (simp add: entered_def effectBody_def i)
  have m: "mode entered = dreaming"
    using transition_idle_modes [OF i(1), of "\<lambda>x. x" "\<lambda>n. 1 / 10" p]
    by (simp add: e pv i)
  have a: "lastArmed entered = Some DreamEnd"
    by (simp add: e transition_idle_armed pv i)
  have c: "calls entered = []"
    using transition_quiet [of "\<lambda>x. x" "\<lambda>n. 1 / 10" p idle "initialState p"] by (simp add: e i)
  have r: "rerunEffect (\<lambda>x. x) (\<lambda>n. 1 / 10) entered = effectCleanup entered"
    by (simp add: rerunEffect_def effectBody_def effectCleanup_fields m)
  have "hs = afterUpdate (\<lambda>x. x) (\<lambda>n. 1 / 10) idle entered"
    by (simp only: hs_def mount_def entered_def)
  then have h: "hs = effectCleanup entered"
    by (simp add: afterUpdate_def r m effectCleanup_fields Let_def)
  have mh: "mode hs = dreaming" and ch: "calls hs = []"
    by (simp_all add: h effectCleanup_fields m c)
  have inv: "oneTimer hs" "mode hs \<noteq> idle \<longrightarrow> timers hs = []"
    unfolding hs_def by (rule mount_invariant)+
  have th: "timers hs = []" using inv(2) mh by simp
  have "\<forall>evs. mode (run (\<lambda>x. x) (\<lambda>n. 1 / 10) evs hs) = dreaming
               \<and> timers (run (\<lambda>x. x) (\<lambda>n. 1 / 10) evs hs) = []
               \<and> calls (run (\<lambda>x. x) (\<lambda>n. 1 / 10) evs hs) = []"
    using run_invariant [where rnd = "\<lambda>x. x" and random = "\<lambda>n. 1 / 10", OF inv] mh ch
    by simp
  then have "mode entered = dreaming \<and> lastArmed entered = Some DreamEnd
      \<and> hs = effectCleanup entered
      \<and> mode hs = dreaming \<and> timers hs = []
      \<and> (\<forall>evs. mode (run (\<lambda>x. x) (\<lambda>n. 1 / 10) evs hs) = dreaming
               \<and> timers (run (\<lambda>x. x) (\<lambda>n. 1 / 10) evs hs) = []
               \<and> calls (run (\<lambda>x. x) (\<lambda>n. 1 / 10) evs hs) = [])"
    using m a h mh th by simp
  then show ?thesis
    unfolding Let_def p_def [symmetric] entered_def [symmetric] hs_def [symmetric] .
qed

subsection \<open>What follows an entry\<close>

lemma quiet_transition:
  assumes "mode hs = idle" and "quietHook hs" and "timers hs = []"
  shows "quietHook (transitionToNextMode rnd random p idle hs)"
  using assms
  by (auto simp: quietHook_def transitionToNextMode_def math_random_def setTimeout_def Let_def)

lemma quiet_effectCleanup:
  assumes "quietHook hs"
  shows "quietHook (effectCleanup hs)"
  using assms
  by (auto simp: quietHook_def effectCleanup_def clearTimeout_def split: option.splits)

lemma quiet_rerunEffect:
  assumes "oneTimer hs" and "quietHook hs"
  shows "quietHook (rerunEffect rnd random hs)"
proof (cases "mode hs = idle")
  case True
  have "quietHook (transitionToNextMode rnd random (props (effectCleanup hs)) idle (effectCleanup hs))"
    using True effectCleanup_clears [OF assms(1)] quiet_effectCleanup [OF assms(2)]
    by (intro quiet_transition) simp_all
  then show ?thesis
    using True by (simp add: rerunEffect_def effectBody_def effectCleanup_fields)
next
  case False
  then show ?thesis
    using quiet_effectCleanup [OF assms(2)]
    by (simp add: rerunEffect_def effectBody_def effectCleanup_fields)
qed

lemma quiet_afterUpdate:
  assumes "oneTimer hs" and "quietHook hs"
  shows "quietHook (afterUpdate rnd random m hs)"
proof -
  have 1: "quietHook (rerunEffect rnd random hs)" using assms by (rule quiet_rerunEffect)
  have "oneTimer (rerunEffect rnd random hs)" using assms(1) by (rule oneTimer_rerunEffect)
  then have 2: "quietHook (rerunEffect rnd random (rerunEffect rnd random hs))"
    using 1 by (rule quiet_rerunEffect)
  show ?thesis using assms(2) 1 2 by (simp add: afterUpdate_def Let_def)
qed

lemma quiet_fireTimer:
  assumes "oneTimer hs" and "mode hs \<noteq> idle \<longrightarrow> timers hs = []" and "quietHook hs"
  shows "quietHook (fireTimer rnd random h hs)"
proof (cases "find (\<lambda>(h', d, cb). h' = h) (timers hs)")
  case None
  then show ?thesis using assms(3) by (simp add: fireTimer_def)
next
  case (Some t)
  obtain h' d cb where t: "t = (h', d, cb)" by (cases t)
  have ts: "timers hs = [(h, d, cb)]"
    using Some assms(1) unfolding t oneTimer_def by (auto split: if_splits)
  then have i: "mode hs = idle" using assms(2) by auto
  then obtain p where cb: "cb = Retransition p idle"
    using assms(3) ts by (auto simp: quietHook_def)
  have c: "timers (clearTimeout h hs) = []" "mode (clearTimeout h hs) = idle"
    using ts i by (simp_all add: clearTimeout_def)
  have "quietHook (clearTimeout h hs)"
    using assms(3) c by (simp add: quietHook_def clearTimeout_def)
  then have "quietHook (transitionToNextMode rnd random p idle (clearTimeout h hs))"
    using c by (intro quiet_transition) simp_all
  then show ?thesis using Some by (simp add: fireTimer_def t cb runCallback_def)
qed

lemma quiet_step:
  assumes "oneTimer hs" and "mode hs \<noteq> idle \<longrightarrow> timers hs = []" and "quietHook hs"
  shows "quietHook (step rnd random hs ev)"
proof (cases ev)
  case (TimerFires h)
  have "oneTimer (fireTimer rnd random h hs)" using assms(1) by (rule oneTimer_fireTimer)
  moreover have "quietHook (fireTimer rnd random h hs)" using assms by (rule quiet_fireTimer)
  ultimately show ?thesis unfolding step_def TimerFires by (simp add: quiet_afterUpdate)
next
  case (Render p)
  have o: "oneTimer (hs\<lparr> props := p \<rparr>)" using assms(1) by (simp add: oneTimer_def)
  have q: "quietHook (hs\<lparr> props := p \<rparr>)" using assms(3) by (simp add: quietHook_def)
  have "oneTimer (rerunEffect rnd random (hs\<lparr> props := p \<rparr>))"
    using o by (rule oneTimer_rerunEffect)
  moreover have "quietHook (rerunEffect rnd random (hs\<lparr> props := p \<rparr>))"
    using o q by (rule quiet_rerunEffect)
  ultimately show ?thesis unfolding step_def Render by (simp add: quiet_afterUpdate)
qed

lemma quiet_run:
  assumes "oneTimer hs" and "mode hs \<noteq> idle \<longrightarrow> timers hs = []" and "quietHook hs"
  shows "quietHook (run rnd random evs hs)"
  using assms
proof (induction evs arbitrary: hs)
  case Nil
  then show ?case by (simp add: run_def)
next
  case (Cons ev evs)
  note s = step_invariant [OF Cons.prems(1, 2), of rnd random ev]
  have q: "quietHook (step rnd random hs ev)" using Cons.prems by (rule quiet_step)
  have "run rnd random (ev # evs) hs = run rnd random evs (step rnd random hs ev)"
    by (simp add: run_def)
  then show ?case using Cons.IH [OF s(1) s(2) q] by simp
qed

lemma quiet_mount: "quietHook (mount rnd random p)"
proof -
  have i: "quietHook (initialState p)" "timers (initialState p) = []"
    "mode (initialState p) = idle"
    by (simp_all add: quietHook_def initialState_def)
  have q: "quietHook (effectBody rnd random (initialState p))"
    using i by (simp add: effectBody_def quiet_transition)
  have o: "oneTimer (effectBody rnd random (initialState p))"
    by (simp add: effectBody_def initialState_def oneTimer_transition)
  show ?thesis unfolding mount_def using o q by (rule quiet_afterUpdate)
qed

text \<open>
  In no execution of the mounted hook is a callback of the parent called, a sigil
  focused or the mode playing entered: the only timers that ever fire re-arm
  \<open>transitionToNextMode\<close> in mode idle.
\<close>

lemma no_callback_in_any_run:
  "calls (run rnd random evs (mount rnd random p)) = []
   \<and> focusedSigil (run rnd random evs (mount rnd random p)) = None
   \<and> mode (run rnd random evs (mount rnd random p)) \<noteq> playing"
  using quiet_run [where hs = "mount rnd random p" and rnd = rnd and random = random
      and evs = evs, OF mount_invariant quiet_mount]
  by (simp add: quietHook_def)

text \<open>
  Claim C5. The branch taken in mode idle is the one the claim names, but what the claim
  says follows an entry does not happen on the code. With curiosity 50, energy 50 and
  draws 0.6 (not below P(idle to observe) = 0.5, below 0.25 + 0.5) the effect enters
  focusing and arms the timer that would move on to playing; the mode change makes the
  effect run again, and its cleanup clears that timer. The mode stays focusing under
  every sequence of timer and render events: playing is never entered, no sigil point is
  focused, and neither \<open>onFocusChange\<close> nor \<open>onPlay\<close> is called.
\<close>

theorem focusing_timer_cancelled:
  "let p = \<lparr> sigilPoints = [\<lparr> sigil_id = 0, sigil_x = 210, sigil_y = 145, sigil_angle = 0,
                                sigil_radius = 10 \<rparr>,
                             \<lparr> sigil_id = 1, sigil_x = 190, sigil_y = 145, sigil_angle = 3,
                                sigil_radius = 10 \<rparr>],
             config = DEFAULT_AI_CONFIG,
             stats = \<lparr> GuardianStats.energy = 50, curiosity = 50, bond = 50, health = 50 \<rparr>,
             onPlay = True \<rparr>;
       entered = effectBody (\<lambda>x. x) (\<lambda>n. 3 / 5) (initialState p);
       hs = mount (\<lambda>x. x) (\<lambda>n. 3 / 5) p
   in mode entered = focusing \<and> lastArmed entered = Some (FocusEnd p)
      \<and> hs = effectCleanup entered
      \<and> mode hs = focusing \<and> timers hs = []
      \<and> (\<forall>evs. mode (run (\<lambda>x. x) (\<lambda>n. 3 / 5) evs hs) = focusing
               \<and> timers (run (\<lambda>x. x) (\<lambda>n. 3 / 5) evs hs) = []
               \<and> focusedSigil (run (\<lambda>x. x) (\<lambda>n. 3 / 5) evs hs) = None
               \<and> calls (run (\<lambda>x. x) (\<lambda>n. 3 / 5) evs hs) = [])"
proof -
  define p where "p = \<lparr> sigilPoints = [\<lparr> sigil_id = 0, sigil_x = 210, sigil_y = 145, sigil_angle = 0,
                                sigil_radius = 10 \<rparr>,
                             \<lparr> sigil_id = 1, sigil_x = 190, sigil_y = 145, sigil_angle = 3,
                                sigil_radius = 10 \<rparr>],
             config = DEFAULT_AI_CONFIG,
             stats = \<lparr> GuardianStats.energy = 50, curiosity = 50, bond = 50, health = 50 \<rparr>,
             onPlay = True \<rparr>"
  define entered where "entered = effectBody (\<lambda>x. x) (\<lambda>n. 3 / 5) (initialState p)"
  define hs where "hs = mount (\<lambda>x. x) (\<lambda>n. 3 / 5) p"
  have pv: "GuardianStats.energy (stats p) = 50" "GuardianStats.curiosity (stats p) = 50"
    "idleToDream (probabilities (config p)) = 15 / 100"
    "idleToObserve (probabilities (config p)) = 5 / 10"
    "idleToFocus (probabilities (config p)) = 25 / 100"
    by (simp_all add: p_def DEFAULT_AI_CONFIG_def)
  have i: "mode (initialState p) = idle" "calls (initialState p) = []"
    "drawn (initialState p) = 0" "props (initialState p) = p"
    by (simp_all add: initialState_def)
  have e: "entered = transitionToNextMode (\<lambda>x. x) (\<lambda>n. 3 / 5) p idle (initialState p)"
    by (simp add: entered_def effectBody_def i)
  have m: "mode entered = focusing"
    using transition_idle_modes [OF i(1), of "\<lambda>x. x" "\<lambda>n. 3 / 5" p]
    by (simp add: e pv i)
  have a: "lastArmed entered = Some (FocusEnd p)"
    by (simp add: e transition_idle_armed pv i)
  have r: "rerunEffect (\<lambda>x. x) (\<lambda>n. 3 / 5) entered = effectCleanup entered"
    by (simp add: rerunEffect_def effectBody_def effectCleanup_fields m)
  have "hs = afterUpdate (\<lambda>x. x) (\<lambda>n. 3 / 5) idle entered"
    by (simp only: hs_def mount_def entered_def)
  then have h: "hs = effectCleanup entered"
    by (simp add: afterUpdate_def r m effectCleanup_fields Let_def)
  have mh: "mode hs = focusing"
    by (simp add: h effectCleanup_fields m)
  have inv: "oneTimer hs" "mode hs \<noteq> idle \<longrightarrow> timers hs = []"
    unfolding hs_def by (rule mount_invariant)+
  have th: "timers hs = []" using inv(2) mh by simp
  have q: "\<forall>evs. focusedSigil (run (\<lambda>x. x) (\<lambda>n. 3 / 5) evs hs) = None
               \<and> calls (run (\<lambda>x. x) (\<lambda>n. 3 / 5) evs hs) = []"
    unfolding hs_def using no_callback_in_any_run [of "\<lambda>x. x" "\<lambda>n. 3 / 5" _ p] by blast
  have "\<forall>evs. mode (run (\<lambda>x. x) (\<lambda>n. 3 / 5) evs hs) = focusing
               \<and> timers (run (\<lambda>x. x) (\<lambda>n. 3 / 5) evs hs) = []"
    using run_invariant [where rnd = "\<lambda>x. x" and random = "\<lambda>n. 3 / 5", OF inv] mh
    by simp
  with q have "mode entered = focusing \<and> lastArmed entered = Some (FocusEnd p)
      \<and> hs = effectCleanup entered
      \<and> mode hs = focusing \<and> timers hs = []
      \<and> (\<forall>evs. mode (run (\<lambda>x. x) (\<lambda>n. 3 / 5) evs hs) = focusing
               \<and> timers (run (\<lambda>x. x) (\<lambda>n. 3 / 5) evs hs) = []
               \<and> focusedSigil (run (\<lambda>x. x) (\<lambda>n. 3 / 5) evs hs) = None
               \<and> calls (run (\<lambda>x. x) (\<lambda>n. 3 / 5) evs hs) = [])"
    using m a h mh th by simp
  then show ?thesis
    unfolding Let_def p_def [symmetric] entered_def [symmetric] hs_def [symmetric] .
qed

end
